theory Spec2Isabelle
  imports Main "HOL-Library.Word" "HOL-Library.Log_Nat"
begin

unbundle bit_operations_syntax

section \<open>Errors and bytes\<close>

text \<open>
  \<^verbatim>\<open>class MyErr : public std::exception\<close> carries one message string.
  An \<^verbatim>\<open>unsigned char\<close> is an 8-bit word, a \<^verbatim>\<open>char\<close> of a
  \<^verbatim>\<open>std::string\<close> is a \<^typ>\<open>char\<close>.
\<close>

datatype MyErr = MyErr string

type_synonym byte = "8 word"

text \<open>
  What a call can end in: a normal return, a thrown \<open>MyErr\<close>, or behaviour the language
  leaves undefined (a null pointer dereferenced, an indeterminate value used, a signed
  counter that overflows, a conversion out of range).
\<close>

datatype 'a outcome = Ok 'a | Throw MyErr | Undefined

fun bind :: "'a outcome \<Rightarrow> ('a \<Rightarrow> 'b outcome) \<Rightarrow> 'b outcome" where
  "bind (Ok x) f = f x"
| "bind (Throw e) f = Throw e"
| "bind Undefined f = Undefined"

section \<open>The Base64 transform of \<^verbatim>\<open>XMLConverter\<close>\<close>

definition base64_chars :: string where
  "base64_chars =
     ''ABCDEFGHIJKLMNOPQRSTUVWXYZabcdefghijklmnopqrstuvwxyz0123456789+/''"

text \<open>\<^verbatim>\<open>std::string::find(char)\<close>: the first position of the character, \<open>None\<close> for
  \<^verbatim>\<open>npos\<close>.\<close>

fun string_find :: "string \<Rightarrow> char \<Rightarrow> nat option" where
  "string_find [] c = None"
| "string_find (x # xs) c =
     (if x = c then Some 0 else map_option Suc (string_find xs c))"

text \<open>\<^verbatim>\<open>base64_chars[char_array_4[i]]\<close>.\<close>

definition base64_index :: "byte \<Rightarrow> char" where
  "base64_index v = base64_chars ! unat v"

subsection \<open>Encoding\<close>

text \<open>The four 6-bit values computed from \<^verbatim>\<open>char_array_3\<close> (lines 276-281 and
  295-300 of the source, the same four assignments).\<close>

definition char_array_4_of :: "byte \<Rightarrow> byte \<Rightarrow> byte \<Rightarrow> byte list" where
  "char_array_4_of a0 a1 a2 =
     [drop_bit 2 (a0 AND 0xfc),
      push_bit 4 (a0 AND 0x03) + drop_bit 4 (a1 AND 0xf0),
      push_bit 2 (a1 AND 0x0f) + drop_bit 6 (a2 AND 0xc0),
      a2 AND 0x3f]"

text \<open>
  The \<^verbatim>\<open>for (size_t n = 0; n < in_len; n++)\<close> loop. \<open>buf\<close> is
  \<^verbatim>\<open>char_array_3[0..i)\<close>, so \<^verbatim>\<open>i\<close> is \<open>length buf\<close>; the cells of the
  array at \<^verbatim>\<open>i\<close> and above are always written before they are read.
\<close>

fun encode_loop :: "byte list \<Rightarrow> byte list \<Rightarrow> string \<Rightarrow> byte list \<times> string" where
  "encode_loop [] buf encoded = (buf, encoded)"
| "encode_loop (d # data) buf encoded =
     (if length buf = 2
      then encode_loop data []
             (encoded @ map base64_index (char_array_4_of (buf ! 0) (buf ! 1) d))
      else encode_loop data (buf @ [d]) encoded)"

text \<open>The \<^verbatim>\<open>if (i > 0)\<close> block: zero fill, \<open>i + 1\<close> characters, then \<open>3 - i\<close>
  padding characters.\<close>

definition encode_tail :: "byte list \<Rightarrow> string" where
  "encode_tail buf =
     (let a3 = buf @ replicate (3 - length buf) 0;
          a4 = char_array_4_of (a3 ! 0) (a3 ! 1) (a3 ! 2)
      in map base64_index (take (length buf + 1) a4)
         @ replicate (3 - length buf) (CHR ''=''))"

definition base64_encode :: "byte list \<Rightarrow> string" where
  "base64_encode data =
     (case encode_loop data [] [] of
        (buf, encoded) \<Rightarrow>
          if 0 < length buf then encoded @ encode_tail buf else encoded)"

subsection \<open>Decoding\<close>

text \<open>
  \<^verbatim>\<open>isalnum\<close> answers for the C locale in force. The decoder takes the
  classification as an argument; \<open>isalnum_C\<close> is the one of the default "C" locale,
  which the library itself never changes.
\<close>

definition isalnum_C :: "char \<Rightarrow> bool" where
  "isalnum_C c =
     (let n = (of_char c :: nat)
      in (48 \<le> n \<and> n \<le> 57) \<or> (65 \<le> n \<and> n \<le> 90) \<or> (97 \<le> n \<and> n \<le> 122))"

text \<open>The three bytes computed from \<^verbatim>\<open>char_array_4\<close> (lines 362-366 and 390-394).\<close>

definition char_array_3_of :: "byte list \<Rightarrow> byte list" where
  "char_array_3_of a4 =
     [push_bit 2 (a4 ! 0) + drop_bit 4 ((a4 ! 1) AND 0x30),
      push_bit 4 ((a4 ! 1) AND 0xf) + drop_bit 2 ((a4 ! 2) AND 0x3c),
      push_bit 6 ((a4 ! 2) AND 0x3) + (a4 ! 3)]"

text \<open>The table lookup of a complete group (lines 354-360): \<^verbatim>\<open>npos\<close> throws.\<close>

fun lookup_group :: "char list \<Rightarrow> MyErr + byte list" where
  "lookup_group [] = Inr []"
| "lookup_group (c # cs) =
     (case string_find base64_chars c of
        None \<Rightarrow> Inl (MyErr ''Invalid character in Base64 string.'')
      | Some pos \<Rightarrow>
          (case lookup_group cs of
             Inl e \<Rightarrow> Inl e
           | Inr vs \<Rightarrow> Inr (of_nat pos # vs)))"

text \<open>The table lookup of the trailing group (lines 381-388): \<^verbatim>\<open>npos\<close> gives 0.\<close>

definition lookup_tail :: "char list \<Rightarrow> byte list" where
  "lookup_tail a4 =
     map (\<lambda>c. case string_find base64_chars c of Some pos \<Rightarrow> of_nat pos | None \<Rightarrow> 0) a4"

text \<open>
  The \<^verbatim>\<open>while\<close> loop over \<^verbatim>\<open>clean_encoded\<close>. The string argument is
  what is left of \<^verbatim>\<open>clean_encoded\<close> from position \<^verbatim>\<open>in_\<close> on, and \<open>buf\<close>
  is \<^verbatim>\<open>char_array_4[0..i)\<close>. The loop ends at the end of the string or at the first
  character that fails its condition, and leaves the rest unread. The position counter
  is an \<^verbatim>\<open>int\<close> (line 330, beside \<^verbatim>\<open>size_t i\<close> and \<^verbatim>\<open>j\<close>):
  \<^verbatim>\<open>in_++\<close> at \<open>INT_MAX\<close> is a signed overflow, which comes before the table
  lookup of the group that the character completes.
\<close>

definition INT_MAX :: int where
  "INT_MAX = 2 ^ 31 - 1"

fun decode_loop ::
  "(char \<Rightarrow> bool) \<Rightarrow> string \<Rightarrow> int \<Rightarrow> char list \<Rightarrow> byte list
     \<Rightarrow> (char list \<times> byte list) outcome"
where
  "decode_loop isalnum [] in_pos buf ret = Ok (buf, ret)"
| "decode_loop isalnum (c # rest) in_pos buf ret =
     (if c \<noteq> CHR ''='' \<and> (isalnum c \<or> c = CHR ''+'' \<or> c = CHR ''/'')
      then (if in_pos = INT_MAX then Undefined
            else if length buf = 3
            then (case lookup_group (buf @ [c]) of
                    Inl e \<Rightarrow> Throw e
                  | Inr a4 \<Rightarrow> decode_loop isalnum rest (in_pos + 1) [] (ret @ char_array_3_of a4))
            else decode_loop isalnum rest (in_pos + 1) (buf @ [c]) ret)
      else Ok (buf, ret))"

definition clean_encoded_of :: "(char \<Rightarrow> bool) \<Rightarrow> string \<Rightarrow> string" where
  "clean_encoded_of isalnum encoded_string =
     filter (\<lambda>c. isalnum c \<or> c = CHR ''+'' \<or> c = CHR ''/'' \<or> c = CHR ''='') encoded_string"

text \<open>The \<^verbatim>\<open>if (i > 0)\<close> block after the loop: zero fill, lookup, \<open>i - 1\<close> bytes.\<close>

definition decode_tail :: "char list \<Rightarrow> byte list" where
  "decode_tail buf =
     take (length buf - 1)
       (char_array_3_of (lookup_tail (buf @ replicate (4 - length buf) (CHR 0x00))))"

definition base64_decode_in :: "(char \<Rightarrow> bool) \<Rightarrow> string \<Rightarrow> byte list outcome" where
  "base64_decode_in isalnum encoded_string =
     (if encoded_string = [] then Ok []
      else
        let clean_encoded = clean_encoded_of isalnum encoded_string
        in if length clean_encoded mod 4 \<noteq> 0
           then Throw (MyErr ''Invalid Base64 string length.'')
           else bind (decode_loop isalnum clean_encoded 0 [] []) (\<lambda>r.
                  case r of (buf, ret) \<Rightarrow>
                    if 0 < length buf then Ok (ret @ decode_tail buf) else Ok ret))"

definition base64_decode :: "string \<Rightarrow> byte list outcome" where
  "base64_decode = base64_decode_in isalnum_C"

subsection \<open>Auxiliary notions for the Base64 proofs\<close>

text \<open>The condition of the decoder's \<^verbatim>\<open>while\<close> loop on the current character.\<close>

definition loop_cond :: "(char \<Rightarrow> bool) \<Rightarrow> char \<Rightarrow> bool" where
  "loop_cond isalnum c \<longleftrightarrow> c \<noteq> CHR ''='' \<and> (isalnum c \<or> c = CHR ''+'' \<or> c = CHR ''/'')"

text \<open>
  The decoder's loop without its position counter: what \<open>decode_loop\<close> computes as long
  as \<^verbatim>\<open>in_\<close> stays below \<open>INT_MAX\<close> (lemma \<open>decode_loop_chars\<close>).
\<close>

fun decode_chars ::
  "(char \<Rightarrow> bool) \<Rightarrow> string \<Rightarrow> char list \<Rightarrow> byte list \<Rightarrow> MyErr + (char list \<times> byte list)"
where
  "decode_chars isalnum [] buf ret = Inr (buf, ret)"
| "decode_chars isalnum (c # rest) buf ret =
     (if c \<noteq> CHR ''='' \<and> (isalnum c \<or> c = CHR ''+'' \<or> c = CHR ''/'')
      then (if length buf = 3
            then (case lookup_group (buf @ [c]) of
                    Inl e \<Rightarrow> Inl e
                  | Inr a4 \<Rightarrow> decode_chars isalnum rest [] (ret @ char_array_3_of a4))
            else decode_chars isalnum rest (buf @ [c]) ret)
      else Inr (buf, ret))"

definition lift :: "MyErr + 'a \<Rightarrow> 'a outcome" where
  "lift r = (case r of Inl e \<Rightarrow> Throw e | Inr x \<Rightarrow> Ok x)"

text \<open>The four 6-bit values of \<open>char_array_4_of\<close> written with disjoint bit fields: the
  additions of the source never carry (lemma \<open>char_array_4_of_sextets\<close>).\<close>

definition sextets :: "byte \<Rightarrow> byte \<Rightarrow> byte \<Rightarrow> byte list" where
  "sextets a b c =
     [drop_bit 2 a,
      push_bit 4 (a AND mask 2) OR drop_bit 4 b,
      push_bit 2 (b AND mask 4) OR drop_bit 6 c,
      c AND mask 6]"

text \<open>The number of \<^verbatim>\<open>=\<close> characters at the end of a string.\<close>

definition count_trailing_pad :: "string \<Rightarrow> nat" where
  "count_trailing_pad s = length (takeWhile (\<lambda>c. c = CHR ''='') (rev s))"

text \<open>
  A second classification, for a host program that has selected an ISO-8859-1 locale:
  there \<^verbatim>\<open>isalnum\<close> also accepts the accented letters in the upper half of the
  code page, none of which is in \<open>base64_chars\<close>. The byte \<^verbatim>\<open>0xFF\<close> is left out:
  where \<^verbatim>\<open>char\<close> is signed it reaches \<^verbatim>\<open>isalnum\<close> as \<^verbatim>\<open>EOF\<close>, which
  is not alphanumeric.
\<close>

definition isalnum_latin1 :: "char \<Rightarrow> bool" where
  "isalnum_latin1 c =
     (let n = (of_char c :: nat)
      in isalnum_C c \<or> n = 170 \<or> n = 181 \<or> n = 186
         \<or> (192 \<le> n \<and> n \<le> 214) \<or> (216 \<le> n \<and> n \<le> 246) \<or> (248 \<le> n \<and> n \<le> 254))"

section \<open>Arithmetic types\<close>

text \<open>
  The scalar overloads of \<^verbatim>\<open>process\<close> take every type with
  \<^verbatim>\<open>std::is_arithmetic\<close>. \<open>Arith s n\<close> is an integral type other than
  \<^verbatim>\<open>bool\<close>, given by its signedness and its \<^verbatim>\<open>sizeof\<close> (the character types
  included); \<open>Bool\<close>, \<open>Float\<close> and \<open>Double\<close> are \<^verbatim>\<open>bool\<close>, \<^verbatim>\<open>float\<close> and
  \<^verbatim>\<open>double\<close>. (\<^verbatim>\<open>long double\<close> is left out: its format differs from host to host,
  and no overload of \<^verbatim>\<open>SetAttribute\<close> takes it.) A scalar value is an integer: the
  number itself for an integral type, 0 or 1 for \<^verbatim>\<open>bool\<close>, and for a floating-point
  type the object representation read as an unsigned integer, which is what the binary
  codec copies.
\<close>

datatype arith = Arith bool nat | Bool | Float | Double

fun sizeof :: "arith \<Rightarrow> nat" where
  "sizeof (Arith s n) = n"
| "sizeof Bool = 1"
| "sizeof Float = 4"
| "sizeof Double = 8"

fun is_floating_point :: "arith \<Rightarrow> bool" where
  "is_floating_point Float = True"
| "is_floating_point Double = True"
| "is_floating_point a = False"

text \<open>\<^verbatim>\<open>size_t\<close> of the 64-bit hosts the library is built for.\<close>

definition size_t :: arith where
  "size_t = Arith False 8"

fun in_range :: "arith \<Rightarrow> int \<Rightarrow> bool" where
  "in_range (Arith s n) v =
     (if s then - (2 ^ (8 * n - 1)) \<le> v \<and> v < 2 ^ (8 * n - 1)
      else 0 \<le> v \<and> v < 2 ^ (8 * n))"
| "in_range Bool v = (v = 0 \<or> v = 1)"
| "in_range Float v = (0 \<le> v \<and> v < 2 ^ 32)"
| "in_range Double v = (0 \<le> v \<and> v < 2 ^ 64)"

subsection \<open>Floating-point values\<close>

text \<open>
  The value of a \<^verbatim>\<open>float\<close> or \<^verbatim>\<open>double\<close> of an IEC 60559 host:
  \<open>Finite s m e\<close> is \<open>(-1) ^ s * m * 2 ^ e\<close> (zero keeps its sign), beside the two
  infinities and the NaNs. A format is given by its precision and the width of its
  exponent field; \<open>emin\<close> is the exponent of the last place of a subnormal number
  (\<open>-1074\<close> for \<^verbatim>\<open>double\<close>, \<open>-149\<close> for \<^verbatim>\<open>float\<close>) and \<open>emax\<close> that of
  the last place of the largest finite number.
\<close>

datatype floating = Finite bool int int | Infinity bool | NaN bool

fun precision :: "arith \<Rightarrow> nat" where
  "precision Float = 24"
| "precision Double = 53"
| "precision a = 0"

fun exponent_bits :: "arith \<Rightarrow> nat" where
  "exponent_bits Float = 8"
| "exponent_bits Double = 11"
| "exponent_bits a = 0"

definition emin :: "arith \<Rightarrow> int" where
  "emin a = 3 - 2 ^ (exponent_bits a - 1) - int (precision a)"

definition emax :: "arith \<Rightarrow> int" where
  "emax a = 2 ^ (exponent_bits a - 1) - int (precision a)"

text \<open>The value that an object representation stands for, and the representation of a
  value that is canonical for the format (as \<open>round_to\<close> returns it).\<close>

definition floating_of_bits :: "arith \<Rightarrow> int \<Rightarrow> floating" where
  "floating_of_bits a b =
     (let p = precision a; w = exponent_bits a;
          f = b mod 2 ^ (p - 1);
          be = (b div 2 ^ (p - 1)) mod 2 ^ w;
          s = ((b div 2 ^ (p - 1 + w)) mod 2 = 1)
      in if be = 2 ^ w - 1 then (if f = 0 then Infinity s else NaN s)
         else if be = 0 then Finite s f (emin a)
         else Finite s (2 ^ (p - 1) + f) (emin a + be - 1))"

definition bits_of_floating :: "arith \<Rightarrow> floating \<Rightarrow> int" where
  "bits_of_floating a x =
     (let p = precision a; w = exponent_bits a;
          sign = (\<lambda>s. if s then 2 ^ (p - 1 + w) else (0::int))
      in case x of
           Finite s m e \<Rightarrow>
             sign s + (if m < 2 ^ (p - 1) then m
                       else (e - emin a + 1) * 2 ^ (p - 1) + (m - 2 ^ (p - 1)))
         | Infinity s \<Rightarrow> sign s + (2 ^ w - 1) * 2 ^ (p - 1)
         | NaN s \<Rightarrow> sign s + (2 ^ w - 1) * 2 ^ (p - 1) + 2 ^ (p - 2))"

text \<open>
  \<open>round_to a s n d\<close>: the value of format \<open>a\<close> nearest to \<open>(-1) ^ s * n / d\<close>
  (\<open>0 \<le> n\<close>, \<open>0 < d\<close>), ties to even: the quotient is scaled to the precision of the
  format, or to the last place of the subnormal numbers, and rounded; what lies above
  the largest finite number after rounding is an infinity.
\<close>

definition floor_log2 :: "int \<Rightarrow> int \<Rightarrow> int" where
  "floor_log2 n d =
     (let b = bitlen n - bitlen d
      in if (0 \<le> b \<and> d * 2 ^ nat b \<le> n) \<or> (b < 0 \<and> d \<le> n * 2 ^ nat (- b))
         then b else b - 1)"

definition round_half_even :: "int \<Rightarrow> int \<Rightarrow> int" where
  "round_half_even num den =
     (let q = num div den; r = num mod den
      in if den < 2 * r \<or> (2 * r = den \<and> odd q) then q + 1 else q)"

definition round_to :: "arith \<Rightarrow> bool \<Rightarrow> int \<Rightarrow> int \<Rightarrow> floating" where
  "round_to a s n d =
     (if n = 0 then Finite s 0 (emin a)
      else
        let p = precision a;
            e = max (floor_log2 n d - (int p - 1)) (emin a);
            q = round_half_even (if 0 \<le> e then n else n * 2 ^ nat (- e))
                  (if 0 \<le> e then d * 2 ^ nat e else d);
            m = (if q = 2 ^ p then 2 ^ (p - 1) else q);
            e' = (if q = 2 ^ p then e + 1 else e)
        in if emax a < e' then Infinity s else Finite s m e')"

text \<open>\<^verbatim>\<open>operator<\<close> of a floating-point type: false as soon as one side is a NaN;
  the two zeros are equal.\<close>

fun floating_less :: "floating \<Rightarrow> floating \<Rightarrow> bool" where
  "floating_less (Finite s m e) (Finite t n f) =
     (let k = min e f
      in (if s then - m else m) * 2 ^ nat (e - k) < (if t then - n else n) * 2 ^ nat (f - k))"
| "floating_less (Finite s m e) (Infinity t) = (\<not> t)"
| "floating_less (Infinity s) (Finite t n f) = s"
| "floating_less (Infinity s) (Infinity t) = (s \<and> \<not> t)"
| "floating_less (NaN s) y = False"
| "floating_less (Finite s m e) (NaN t) = False"
| "floating_less (Infinity s) (NaN t) = False"

fun is_NaN :: "floating \<Rightarrow> bool" where
  "is_NaN (NaN s) = True"
| "is_NaN x = False"

text \<open>\<^verbatim>\<open>operator<\<close> of the scalar type \<open>a\<close> on two of its values.\<close>

definition arith_less :: "arith \<Rightarrow> int \<Rightarrow> int \<Rightarrow> bool" where
  "arith_less a x y =
     (if is_floating_point a then floating_less (floating_of_bits a x) (floating_of_bits a y)
      else x < y)"

section \<open>Value categories\<close>

text \<open>
  The \<^verbatim>\<open>process\<close> overloads are selected by the static C++ type of their argument.
  \<open>ty\<close> is that type, \<open>val\<close> a value of it. A \<^verbatim>\<open>std::set\<close> is the list of its
  elements in iteration order, a \<^verbatim>\<open>std::map\<close> the list of its entries in iteration
  order.
\<close>

datatype ty =
    TArith arith
  | TString
  | TPair ty ty
  | TVector ty
  | TList ty
  | TSet ty
  | TMap ty ty

datatype val =
    VArith arith int
  | VString string
  | VPair val val
  | VVector "val list"
  | VList "val list"
  | VSet "val list"
  | VMap "(val \<times> val) list"

text \<open>A value-initialised object of each type, and the members of a pair.\<close>

fun default_val :: "ty \<Rightarrow> val" where
  "default_val (TArith a) = VArith a 0"
| "default_val TString = VString []"
| "default_val (TPair t1 t2) = VPair (default_val t1) (default_val t2)"
| "default_val (TVector t) = VVector []"
| "default_val (TList t) = VList []"
| "default_val (TSet t) = VSet []"
| "default_val (TMap t1 t2) = VMap []"

fun first :: "val \<Rightarrow> val" where
  "first (VPair x y) = x"
| "first v = v"

fun second :: "val \<Rightarrow> val" where
  "second (VPair x y) = y"
| "second v = v"

subsection \<open>The comparison of the ordered containers\<close>

text \<open>
  \<^verbatim>\<open>operator<\<close> of each type: scalars by \<open>arith_less\<close>, strings and sequences by
  \<^verbatim>\<open>std::lexicographical_compare\<close> (characters as \<^verbatim>\<open>unsigned char\<close>), pairs
  by \<^verbatim>\<open>first\<close> and then \<^verbatim>\<open>second\<close>.
\<close>

fun less_string :: "string \<Rightarrow> string \<Rightarrow> bool" where
  "less_string [] [] = False"
| "less_string [] (y # ys) = True"
| "less_string (x # xs) [] = False"
| "less_string (x # xs) (y # ys) =
     (if (of_char x :: nat) < of_char y then True
      else if (of_char y :: nat) < of_char x then False
      else less_string xs ys)"

function less_val :: "val \<Rightarrow> val \<Rightarrow> bool"
  and less_vals :: "val list \<Rightarrow> val list \<Rightarrow> bool"
  and less_entries :: "(val \<times> val) list \<Rightarrow> (val \<times> val) list \<Rightarrow> bool"
where
  "less_val (VArith a x) (VArith b y) = arith_less a x y"
| "less_val (VString s) (VString t) = less_string s t"
| "less_val (VPair a b) (VPair c d) = (less_val a c \<or> (\<not> less_val c a \<and> less_val b d))"
| "less_val (VVector xs) (VVector ys) = less_vals xs ys"
| "less_val (VList xs) (VList ys) = less_vals xs ys"
| "less_val (VSet xs) (VSet ys) = less_vals xs ys"
| "less_val (VMap xs) (VMap ys) = less_entries xs ys"
| "less_val (VArith a x) (VString t) = False"
| "less_val (VArith a x) (VPair c d) = False"
| "less_val (VArith a x) (VVector ys) = False"
| "less_val (VArith a x) (VList ys) = False"
| "less_val (VArith a x) (VSet ys) = False"
| "less_val (VArith a x) (VMap ys) = False"
| "less_val (VString s) (VArith b y) = False"
| "less_val (VString s) (VPair c d) = False"
| "less_val (VString s) (VVector ys) = False"
| "less_val (VString s) (VList ys) = False"
| "less_val (VString s) (VSet ys) = False"
| "less_val (VString s) (VMap ys) = False"
| "less_val (VPair a b) (VArith c y) = False"
| "less_val (VPair a b) (VString t) = False"
| "less_val (VPair a b) (VVector ys) = False"
| "less_val (VPair a b) (VList ys) = False"
| "less_val (VPair a b) (VSet ys) = False"
| "less_val (VPair a b) (VMap ys) = False"
| "less_val (VVector xs) (VArith b y) = False"
| "less_val (VVector xs) (VString t) = False"
| "less_val (VVector xs) (VPair c d) = False"
| "less_val (VVector xs) (VList ys) = False"
| "less_val (VVector xs) (VSet ys) = False"
| "less_val (VVector xs) (VMap ys) = False"
| "less_val (VList xs) (VArith b y) = False"
| "less_val (VList xs) (VString t) = False"
| "less_val (VList xs) (VPair c d) = False"
| "less_val (VList xs) (VVector ys) = False"
| "less_val (VList xs) (VSet ys) = False"
| "less_val (VList xs) (VMap ys) = False"
| "less_val (VSet xs) (VArith b y) = False"
| "less_val (VSet xs) (VString t) = False"
| "less_val (VSet xs) (VPair c d) = False"
| "less_val (VSet xs) (VVector ys) = False"
| "less_val (VSet xs) (VList ys) = False"
| "less_val (VSet xs) (VMap ys) = False"
| "less_val (VMap xs) (VArith b y) = False"
| "less_val (VMap xs) (VString t) = False"
| "less_val (VMap xs) (VPair c d) = False"
| "less_val (VMap xs) (VVector ys) = False"
| "less_val (VMap xs) (VList ys) = False"
| "less_val (VMap xs) (VSet ys) = False"
| "less_vals [] [] = False"
| "less_vals [] (y # ys) = True"
| "less_vals (x # xs) [] = False"
| "less_vals (x # xs) (y # ys) =
     (if less_val x y then True else if less_val y x then False else less_vals xs ys)"
| "less_entries [] [] = False"
| "less_entries [] (y # ys) = True"
| "less_entries (x # xs) [] = False"
| "less_entries (x # xs) (y # ys) =
     (if less_val (fst x) (fst y) \<or> (\<not> less_val (fst y) (fst x) \<and> less_val (snd x) (snd y))
      then True
      else if less_val (fst y) (fst x) \<or> (\<not> less_val (fst x) (fst y) \<and> less_val (snd y) (snd x))
      then False
      else less_entries xs ys)"
  by pat_completeness auto
termination
  by (relation "measure (\<lambda>x. case x of
        Inl (a, b) \<Rightarrow> size a + size b
      | Inr (Inl (xs, ys)) \<Rightarrow> size_list size xs + size_list size ys
      | Inr (Inr (xs, ys)) \<Rightarrow>
          size_list (\<lambda>e. Suc (size (fst e) + size (snd e))) xs
          + size_list (\<lambda>e. Suc (size (fst e) + size (snd e))) ys)")
     (auto simp: size_prod_simp)

text \<open>
  \<^verbatim>\<open>std::set::insert\<close> and \<^verbatim>\<open>data[key] = value\<close> of \<^verbatim>\<open>std::map\<close> on the
  iteration-ordered lists: the element goes before the first greater one; an equivalent
  element (neither less than the other) is kept, and for the map its value is replaced.
\<close>

fun set_insert :: "val \<Rightarrow> val list \<Rightarrow> val list" where
  "set_insert x [] = [x]"
| "set_insert x (y # ys) =
     (if less_val x y then x # y # ys
      else if less_val y x then y # set_insert x ys
      else y # ys)"

fun map_assign :: "val \<Rightarrow> val \<Rightarrow> (val \<times> val) list \<Rightarrow> (val \<times> val) list" where
  "map_assign k v [] = [(k, v)]"
| "map_assign k v (e # es) =
     (if less_val k (fst e) then (k, v) # e # es
      else if less_val (fst e) k then e # map_assign k v es
      else (fst e, v) # es)"

text \<open>
  The ordered containers require a comparison that is a strict weak ordering. With a NaN
  inside a key \<^verbatim>\<open>operator<\<close> is none, and what an insertion of such a key does is
  undefined.
\<close>

fun has_nan :: "val \<Rightarrow> bool" where
  "has_nan (VArith a x) = (is_floating_point a \<and> is_NaN (floating_of_bits a x))"
| "has_nan (VString s) = False"
| "has_nan (VPair x y) = (has_nan x \<or> has_nan y)"
| "has_nan (VVector xs) = list_ex has_nan xs"
| "has_nan (VList xs) = list_ex has_nan xs"
| "has_nan (VSet xs) = list_ex has_nan xs"
| "has_nan (VMap es) = list_ex (\<lambda>e. has_nan (fst e) \<or> has_nan (snd e)) es"

definition insert_value :: "val \<Rightarrow> val list \<Rightarrow> val list outcome" where
  "insert_value x data = (if has_nan x then Undefined else Ok (set_insert x data))"

definition assign_value :: "val \<times> val \<Rightarrow> (val \<times> val) list \<Rightarrow> (val \<times> val) list outcome" where
  "assign_value kv data =
     (if has_nan (fst kv) then Undefined else Ok (map_assign (fst kv) (snd kv) data))"

text \<open>The container categories and the number of elements of a container.\<close>

fun is_container :: "val \<Rightarrow> bool" where
  "is_container (VVector xs) = True"
| "is_container (VList xs) = True"
| "is_container (VSet xs) = True"
| "is_container (VMap es) = True"
| "is_container v = False"

fun count :: "val \<Rightarrow> nat" where
  "count (VVector xs) = length xs"
| "count (VList xs) = length xs"
| "count (VSet xs) = length xs"
| "count (VMap es) = length es"
| "count v = 0"

fun sequence_ty :: "ty \<Rightarrow> bool" where
  "sequence_ty (TVector t) = True"
| "sequence_ty (TList t) = True"
| "sequence_ty t = False"

fun container_ty :: "ty \<Rightarrow> bool" where
  "container_ty (TVector t) = True"
| "container_ty (TList t) = True"
| "container_ty (TSet t) = True"
| "container_ty (TMap t1 t2) = True"
| "container_ty t = False"

text \<open>The name of the element that the XML codec uses for each container category.\<close>

fun container_tag :: "ty \<Rightarrow> string" where
  "container_tag (TVector t) = ''vector''"
| "container_tag (TList t) = ''list''"
| "container_tag (TSet t) = ''set''"
| "container_tag (TMap t1 t2) = ''map''"
| "container_tag t = []"

section \<open>Scalars as text\<close>

text \<open>
  The XML codec hands a scalar to \<^verbatim>\<open>XMLElement::SetAttribute\<close>. The overload taken
  is that of the promoted type, and the attribute is what \<^verbatim>\<open>XMLUtil::ToStr\<close> of the
  document library prints (the library with the \<^verbatim>\<open>uint64_t\<close> overload, which
  \<^verbatim>\<open>process(data.size(), len_ele)\<close> needs): an integer in decimal
  (\<^verbatim>\<open>%d\<close>, \<^verbatim>\<open>%u\<close>, \<^verbatim>\<open>%lld\<close>, \<^verbatim>\<open>%llu\<close>), a \<^verbatim>\<open>bool\<close> as
  \<^verbatim>\<open>true\<close> or \<^verbatim>\<open>false\<close>, a \<^verbatim>\<open>float\<close> with \<^verbatim>\<open>%.8g\<close> and a
  \<^verbatim>\<open>double\<close> with \<^verbatim>\<open>%.17g\<close>.
\<close>

function digits_of :: "int \<Rightarrow> string" where
  "digits_of n =
     (if n < 10 then [char_of (48 + n)]
      else digits_of (n div 10) @ [char_of (48 + n mod 10)])"
  by pat_completeness auto
termination
  by (relation "measure nat") auto

definition decimal :: "int \<Rightarrow> string" where
  "decimal v = (if v < 0 then CHR ''-'' # digits_of (- v) else digits_of v)"

text \<open>
  \<^verbatim>\<open>printf\<close> with \<^verbatim>\<open>%.Pg\<close> of a positive number \<open>n / d\<close>: the number is rounded
  (ties to even, on its exact value) to \<open>P\<close> significant digits, which gives the
  decimal exponent \<open>X\<close>; for \<open>-4 \<le> X < P\<close> the digits are laid out in fixed
  notation and otherwise with an exponent of at least two digits; zeros at the end of
  the fraction are removed, and the point with them when nothing is left.
\<close>

function scale_up :: "int \<Rightarrow> int \<Rightarrow> nat" where
  "scale_up n d = (if d \<le> n \<or> n \<le> 0 then 0 else Suc (scale_up (10 * n) d))"
  by pat_completeness auto
termination
  by (relation "measure (\<lambda>(n, d). nat (d - n))") auto

definition floor_log10 :: "int \<Rightarrow> int \<Rightarrow> int" where
  "floor_log10 n d =
     (if d \<le> n then int (length (digits_of (n div d))) - 1 else - int (scale_up n d))"

definition fraction :: "string \<Rightarrow> string" where
  "fraction fs =
     (let t = rev (dropWhile (\<lambda>c. c = CHR ''0'') (rev fs))
      in if t = [] then [] else CHR ''.'' # t)"

definition exponent_text :: "int \<Rightarrow> string" where
  "exponent_text X =
     CHR ''e'' # (if X < 0 then CHR ''-'' else CHR ''+'')
       # (if \<bar>X\<bar> < 10 then CHR ''0'' # digits_of \<bar>X\<bar> else digits_of \<bar>X\<bar>)"

definition g_format :: "nat \<Rightarrow> int \<Rightarrow> int \<Rightarrow> string" where
  "g_format P n d =
     (let x0 = floor_log10 n d;
          sc = int P - 1 - x0;
          N0 = round_half_even (if 0 \<le> sc then n * 10 ^ nat sc else n)
                 (if 0 \<le> sc then d else d * 10 ^ nat (- sc));
          N = (if 10 ^ P \<le> N0 then N0 div 10 else N0);
          X = (if 10 ^ P \<le> N0 then x0 + 1 else x0);
          ds = digits_of N
      in if - 4 \<le> X \<and> X < int P
         then (if 0 \<le> X then take (nat X + 1) ds @ fraction (drop (nat X + 1) ds)
               else CHR ''0'' # fraction (replicate (nat (- X - 1)) (CHR ''0'') @ ds))
         else take 1 ds @ fraction (drop 1 ds) @ exponent_text X)"

definition printf_g :: "nat \<Rightarrow> floating \<Rightarrow> string" where
  "printf_g P x =
     (case x of
        Finite s m e \<Rightarrow>
          (if s then ''-'' else [])
          @ (if m = 0 then ''0''
             else if 0 \<le> e then g_format P (m * 2 ^ nat e) 1
             else g_format P m (2 ^ nat (- e)))
      | Infinity s \<Rightarrow> (if s then ''-inf'' else ''inf'')
      | NaN s \<Rightarrow> (if s then ''-nan'' else ''nan''))"

fun ToStr :: "arith \<Rightarrow> int \<Rightarrow> string" where
  "ToStr (Arith s n) v = decimal v"
| "ToStr Bool v = (if v \<noteq> 0 then ''true'' else ''false'')"
| "ToStr Float v = printf_g 8 (floating_of_bits Float v)"
| "ToStr Double v = printf_g 17 (floating_of_bits Double v)"

text \<open>A text in decimal form: digits, of which there is at least one, and beside them
  only the marks of a sign, of the point and of the exponent.\<close>

definition isdigit :: "char \<Rightarrow> bool" where
  "isdigit c = (let n = (of_char c :: nat) in 48 \<le> n \<and> n \<le> 57)"


subsection \<open>Reading a \<^verbatim>\<open>double\<close> from text\<close>

text \<open>
  \<^verbatim>\<open>iss >> tmp\<close> for a \<^verbatim>\<open>double\<close>, in the "C" locale. Leading white space is
  skipped; when nothing follows, the extraction is not attempted and \<^verbatim>\<open>tmp\<close>
  keeps its indeterminate value (\<open>None\<close>). Otherwise the characters of a numeral are
  collected: an optional sign, digits, one point with digits, and, once a digit has been
  seen, \<^verbatim>\<open>e\<close> or \<^verbatim>\<open>E\<close> with an optional sign and digits. The collected text
  is converted as \<^verbatim>\<open>strtod\<close> does, to the nearest \<^verbatim>\<open>double\<close>; a text without a
  digit, or with an exponent mark and no exponent digit, stores 0, and a value beyond the
  largest finite \<^verbatim>\<open>double\<close> stores that number with the sign of the text.
\<close>

definition isspace :: "char \<Rightarrow> bool" where
  "isspace c = (let n = (of_char c :: nat) in n = 32 \<or> (9 \<le> n \<and> n \<le> 13))"

definition digits_value :: "string \<Rightarrow> int" where
  "digits_value ds = foldl (\<lambda>a c. 10 * a + (int (of_char c) - 48)) 0 ds"

type_synonym double = floating

definition strtod :: "bool \<Rightarrow> int \<Rightarrow> int \<Rightarrow> double" where
  "strtod neg n x =
     (case (if 0 \<le> x then round_to Double neg (n * 10 ^ nat x) 1
            else round_to Double neg n (10 ^ nat (- x))) of
        Infinity s \<Rightarrow> Finite s (2 ^ 53 - 1) (emax Double)
      | v \<Rightarrow> v)"

definition istream_double :: "string \<Rightarrow> double option" where
  "istream_double text =
     (let s0 = dropWhile isspace text
      in if s0 = [] then None
         else
           let neg = (hd s0 = CHR ''-'');
               s1 = (if hd s0 = CHR ''-'' \<or> hd s0 = CHR ''+'' then tl s0 else s0);
               ip = takeWhile isdigit s1;
               s2 = dropWhile isdigit s1;
               dot = (s2 \<noteq> [] \<and> hd s2 = CHR ''.'');
               fp = (if dot then takeWhile isdigit (tl s2) else []);
               s3 = (if dot then dropWhile isdigit (tl s2) else s2);
               found_mantissa = (ip \<noteq> [] \<or> fp \<noteq> []);
               sci = (found_mantissa \<and> s3 \<noteq> [] \<and> (hd s3 = CHR ''e'' \<or> hd s3 = CHR ''E''));
               s4 = (if sci then tl s3 else []);
               eneg = (s4 \<noteq> [] \<and> hd s4 = CHR ''-'');
               s5 = (if s4 \<noteq> [] \<and> (hd s4 = CHR ''-'' \<or> hd s4 = CHR ''+'') then tl s4 else s4);
               ep = takeWhile isdigit s5
           in if \<not> found_mantissa \<or> (sci \<and> ep = []) then Some (Finite False 0 (emin Double))
              else Some (strtod neg (digits_value (ip @ fp))
                           ((if eneg then - 1 else 1) * digits_value ep - int (length fp))))"

subsection \<open>\<^verbatim>\<open>static_cast<T>(tmp)\<close>\<close>

text \<open>
  To an integral \<^verbatim>\<open>T\<close> the fraction is discarded (truncation towards zero), and the
  behaviour is undefined when the truncated value is not representable in \<^verbatim>\<open>T\<close>;
  to \<^verbatim>\<open>bool\<close> every value but zero is \<^verbatim>\<open>true\<close>; to \<^verbatim>\<open>float\<close> the value is
  rounded to the nearest \<^verbatim>\<open>float\<close>; to \<^verbatim>\<open>double\<close> it is kept.
\<close>

definition trunc :: "int \<Rightarrow> int \<Rightarrow> int" where
  "trunc m e = (if 0 \<le> e then m * 2 ^ nat e else m div 2 ^ nat (- e))"

definition static_cast :: "arith \<Rightarrow> double \<Rightarrow> int outcome" where
  "static_cast a x =
     (case a of
        Arith s n \<Rightarrow>
          (case x of
             Finite neg m e \<Rightarrow>
               (let t = (if neg then - trunc m e else trunc m e)
                in if in_range a t then Ok t else Undefined)
           | _ \<Rightarrow> Undefined)
      | Bool \<Rightarrow> Ok (case x of Finite neg m e \<Rightarrow> if m = 0 then 0 else 1 | _ \<Rightarrow> 1)
      | Float \<Rightarrow>
          Ok (bits_of_floating Float
                (case x of
                   Finite neg m e \<Rightarrow>
                     if 0 \<le> e then round_to Float neg (m * 2 ^ nat e) 1
                     else round_to Float neg m (2 ^ nat (- e))
                 | _ \<Rightarrow> x))
      | Double \<Rightarrow> Ok (bits_of_floating Double x))"

section \<open>The binary codec\<close>

text \<open>
  The target file is a list of bytes. A scalar is written as the \<^verbatim>\<open>sizeof(T)\<close>
  bytes of its object representation, which on the little-endian hosts of the library
  is the two's complement value, least significant byte first.
\<close>

definition byte_of_char :: "char \<Rightarrow> byte" where
  "byte_of_char c = of_char c"

definition char_of_byte :: "byte \<Rightarrow> char" where
  "char_of_byte b = char_of (unat b)"

definition arith_bytes :: "arith \<Rightarrow> int \<Rightarrow> byte list" where
  "arith_bytes a v = map (\<lambda>i. word_of_int (v div 256 ^ i)) [0..<sizeof a]"

definition bytes_unsigned :: "byte list \<Rightarrow> int" where
  "bytes_unsigned bs = foldr (\<lambda>b r. uint b + 256 * r) bs 0"

definition bytes_arith :: "arith \<Rightarrow> byte list \<Rightarrow> int" where
  "bytes_arith a bs =
     (let u = bytes_unsigned bs
      in case a of
           Arith s n \<Rightarrow> if s \<and> 2 ^ (8 * n - 1) \<le> u then u - 2 ^ (8 * n) else u
         | _ \<Rightarrow> u)"

subsection \<open>\<^verbatim>\<open>BinarySerializer\<close>\<close>

text \<open>\<^verbatim>\<open>BinarySerializer::process\<close>: the bytes the call appends to the file.\<close>

fun BinarySerializer_process :: "val \<Rightarrow> byte list" where
  "BinarySerializer_process (VArith a v) = arith_bytes a v"
| "BinarySerializer_process (VString s) =
     arith_bytes size_t (int (length s)) @ map byte_of_char s"
| "BinarySerializer_process (VPair x y) =
     BinarySerializer_process x @ BinarySerializer_process y"
| "BinarySerializer_process (VVector xs) =
     arith_bytes size_t (int (length xs)) @ concat (map BinarySerializer_process xs)"
| "BinarySerializer_process (VList xs) =
     arith_bytes size_t (int (length xs)) @ concat (map BinarySerializer_process xs)"
| "BinarySerializer_process (VSet xs) =
     arith_bytes size_t (int (length xs)) @ concat (map BinarySerializer_process xs)"
| "BinarySerializer_process (VMap es) =
     arith_bytes size_t (int (length es))
     @ concat (map (\<lambda>e. BinarySerializer_process (fst e) @ BinarySerializer_process (snd e)) es)"

subsection \<open>\<^verbatim>\<open>BinaryDeserializer\<close>\<close>

text \<open>
  The source never tests the stream after \<^verbatim>\<open>file.read\<close> (lines 135 and 143). A read
  of \<open>n\<close> bytes stores the bytes that are left, at most \<open>n\<close>, at the front of the
  destination and leaves the rest of the destination as it was; a read that comes short
  puts the stream into its failed state, in which every later read stores nothing. The
  stream is the list of the bytes not yet read: after a short read it is empty, and a
  read from the empty list stores nothing, as a read from a failed stream does.

  The destination is a list of \<open>n\<close> cells, \<open>None\<close> for a byte of an object that has
  not been initialised (\<^verbatim>\<open>size_t len;\<close> and \<^verbatim>\<open>T value;\<close> of an arithmetic
  \<^verbatim>\<open>T\<close>). An object that still has such a byte after the read has an indeterminate
  value, and the functions use it at once (as a size, as a loop bound, in an insertion):
  the model gives \<open>Undefined\<close> where it is produced. So does it for a
  \<^verbatim>\<open>bool\<close> whose byte is neither 0 nor 1. Storage is not bounded in the model:
  \<^verbatim>\<open>resize\<close> does not throw.
\<close>

definition file_read :: "nat \<Rightarrow> byte option list \<Rightarrow> byte list \<Rightarrow> byte option list \<times> byte list" where
  "file_read n dest file = (map Some (take n file) @ drop (length file) dest, drop n file)"

text \<open>The cells of an arithmetic object that holds \<open>v\<close>, or that is not initialised.\<close>

definition object_of :: "arith \<Rightarrow> int option \<Rightarrow> byte option list" where
  "object_of a data =
     (case data of
        None \<Rightarrow> replicate (sizeof a) None
      | Some v \<Rightarrow> map Some (arith_bytes a v))"

definition read_arith :: "arith \<Rightarrow> int option \<Rightarrow> byte list \<Rightarrow> (int \<times> byte list) outcome" where
  "read_arith a data file =
     (case file_read (sizeof a) (object_of a data) file of
        (obj, rest) \<Rightarrow>
          (case those obj of
             None \<Rightarrow> Undefined
           | Some bs \<Rightarrow>
               if a = Bool \<and> 1 < bytes_arith a bs then Undefined
               else Ok (bytes_arith a bs, rest)))"

text \<open>\<^verbatim>\<open>data.clear()\<close> and \<^verbatim>\<open>data.resize(len)\<close> of a sequence of element type
  \<open>t\<close>, and \<^verbatim>\<open>data.resize(len)\<close> of a string.\<close>

definition clear :: "'a list \<Rightarrow> 'a list" where
  "clear data = []"

definition resize :: "ty \<Rightarrow> nat \<Rightarrow> val list \<Rightarrow> val list" where
  "resize t len data = take len data @ replicate (len - length data) (default_val t)"

definition resize_string :: "nat \<Rightarrow> string \<Rightarrow> string" where
  "resize_string len data = take len data @ replicate (len - length data) (CHR 0x00)"

fun elems :: "val \<Rightarrow> val list" where
  "elems (VVector xs) = xs"
| "elems (VList xs) = xs"
| "elems (VSet xs) = xs"
| "elems v = []"

fun entries :: "val \<Rightarrow> (val \<times> val) list" where
  "entries (VMap es) = es"
| "entries v = []"

fun scalar :: "val \<Rightarrow> int" where
  "scalar (VArith a v) = v"
| "scalar v = 0"

fun chars :: "val \<Rightarrow> string" where
  "chars (VString s) = s"
| "chars v = []"

text \<open>
  The destination of a read is \<open>Some v\<close> for an object that holds \<open>v\<close> and \<open>None\<close>
  for an arithmetic object that has not been initialised. \<open>local t\<close> is the local
  \<^verbatim>\<open>T value;\<close>: default-constructed for a class type (a pair value-initialises its
  members), not initialised for an arithmetic type.
\<close>

fun local :: "ty \<Rightarrow> val option" where
  "local (TArith a) = None"
| "local t = Some (default_val t)"

definition held :: "('a \<Rightarrow> 'b list) \<Rightarrow> 'a option \<Rightarrow> 'b list" where
  "held f data = (case data of None \<Rightarrow> [] | Some v \<Rightarrow> f v)"

text \<open>\<^verbatim>\<open>for (T& value : data) process(value);\<close> with the element reader \<open>f\<close>.\<close>

fun process_each ::
  "(val option \<Rightarrow> byte list \<Rightarrow> (val \<times> byte list) outcome) \<Rightarrow> val list \<Rightarrow> byte list
     \<Rightarrow> (val list \<times> byte list) outcome"
where
  "process_each f [] file = Ok ([], file)"
| "process_each f (d # ds) file =
     bind (f (Some d) file) (\<lambda>r.
       bind (process_each f ds (snd r)) (\<lambda>rs. Ok (fst r # fst rs, snd rs)))"

text \<open>The loops \<^verbatim>\<open>for (size_t i = 0; i < len; i++)\<close> of the set and map readers;
  the first argument counts the iterations that are left.\<close>

fun insert_loop ::
  "(byte list \<Rightarrow> (val \<times> byte list) outcome) \<Rightarrow> nat \<Rightarrow> val list \<Rightarrow> byte list
     \<Rightarrow> (val list \<times> byte list) outcome"
where
  "insert_loop f 0 data file = Ok (data, file)"
| "insert_loop f (Suc n) data file =
     bind (f file) (\<lambda>r.
       bind (insert_value (fst r) data) (\<lambda>data'. insert_loop f n data' (snd r)))"

fun assign_loop ::
  "(byte list \<Rightarrow> (val \<times> byte list) outcome) \<Rightarrow> (byte list \<Rightarrow> (val \<times> byte list) outcome)
     \<Rightarrow> nat \<Rightarrow> (val \<times> val) list \<Rightarrow> byte list \<Rightarrow> ((val \<times> val) list \<times> byte list) outcome"
where
  "assign_loop f g 0 data file = Ok (data, file)"
| "assign_loop f g (Suc n) data file =
     bind (f file) (\<lambda>k.
       bind (g (snd k)) (\<lambda>v.
         bind (assign_value (fst k, fst v) data) (\<lambda>data'. assign_loop f g n data' (snd v))))"

text \<open>
  \<^verbatim>\<open>BinaryDeserializer::process(T& data)\<close>: \<open>data\<close> is what the destination holds
  before the call; the result is what it holds afterwards, with the rest of the file.
\<close>

primrec BinaryDeserializer_process ::
  "ty \<Rightarrow> val option \<Rightarrow> byte list \<Rightarrow> (val \<times> byte list) outcome"
where
  "BinaryDeserializer_process (TArith a) = (\<lambda>data file.
     bind (read_arith a (map_option scalar data) file) (\<lambda>r. Ok (VArith a (fst r), snd r)))"
| "BinaryDeserializer_process TString = (\<lambda>data file.
     bind (read_arith size_t None file) (\<lambda>len.
       case file_read (nat (fst len))
              (map (\<lambda>c. Some (byte_of_char c)) (resize_string (nat (fst len)) (held chars data)))
              (snd len) of
         (obj, rest) \<Rightarrow>
           (case those obj of
              None \<Rightarrow> Undefined
            | Some bs \<Rightarrow> Ok (VString (map char_of_byte bs), rest))))"
| "BinaryDeserializer_process (TPair t1 t2) = (\<lambda>data file.
     bind (BinaryDeserializer_process t1 (map_option first data) file) (\<lambda>x.
       bind (BinaryDeserializer_process t2 (map_option second data) (snd x)) (\<lambda>y.
         Ok (VPair (fst x) (fst y), snd y))))"
| "BinaryDeserializer_process (TVector t) = (\<lambda>data file.
     bind (read_arith size_t None file) (\<lambda>len.
       bind (process_each (BinaryDeserializer_process t)
               (resize t (nat (fst len)) (clear (held elems data))) (snd len))
         (\<lambda>r. Ok (VVector (fst r), snd r))))"
| "BinaryDeserializer_process (TList t) = (\<lambda>data file.
     bind (read_arith size_t None file) (\<lambda>len.
       bind (process_each (BinaryDeserializer_process t)
               (resize t (nat (fst len)) (clear (held elems data))) (snd len))
         (\<lambda>r. Ok (VList (fst r), snd r))))"
| "BinaryDeserializer_process (TSet t) = (\<lambda>data file.
     bind (read_arith size_t None file) (\<lambda>len.
       bind (insert_loop (BinaryDeserializer_process t (local t))
               (nat (fst len)) (clear (held elems data)) (snd len))
         (\<lambda>r. Ok (VSet (fst r), snd r))))"
| "BinaryDeserializer_process (TMap t1 t2) = (\<lambda>data file.
     bind (read_arith size_t None file) (\<lambda>len.
       bind (assign_loop (BinaryDeserializer_process t1 (local t1))
               (BinaryDeserializer_process t2 (local t2))
               (nat (fst len)) (clear (held entries data)) (snd len))
         (\<lambda>r. Ok (VMap (fst r), snd r))))"

subsection \<open>The target file and the top functions of the binary codec\<close>

text \<open>
  What \<^verbatim>\<open>std::fstream::open\<close> needs of the host: a name is absent (and the file can
  or cannot be created) or present, with the rights to read and to write it and its
  bytes.
\<close>

datatype target =
    Absent (may_create: bool)
  | Present (may_read: bool) (may_write: bool) (contents: "byte list")

type_synonym filesystem = "string \<Rightarrow> target"

text \<open>\<^verbatim>\<open>file.open(file_name, binary | out | trunc)\<close>: the file system afterwards and
  \<^verbatim>\<open>file.is_open()\<close>.\<close>

definition open_out_trunc :: "filesystem \<Rightarrow> string \<Rightarrow> filesystem \<times> bool" where
  "open_out_trunc fs file_name =
     (case fs file_name of
        Absent c \<Rightarrow> if c then (fs(file_name := Present True True []), True) else (fs, False)
      | Present r w bs \<Rightarrow> if w then (fs(file_name := Present r w []), True) else (fs, False))"

text \<open>\<^verbatim>\<open>file.open(file_name, binary | in)\<close>: the bytes to read when the stream is open.\<close>

definition open_in :: "filesystem \<Rightarrow> string \<Rightarrow> byte list option" where
  "open_in fs file_name =
     (case fs file_name of
        Absent c \<Rightarrow> None
      | Present r w bs \<Rightarrow> if r then Some bs else None)"

text \<open>\<^verbatim>\<open>file.write\<close>: on a stream that is not open nothing is written.\<close>

definition file_write :: "byte list \<Rightarrow> string \<Rightarrow> bool \<Rightarrow> filesystem \<Rightarrow> filesystem" where
  "file_write bytes file_name is_open fs =
     (if is_open
      then (case fs file_name of
              Present r w bs \<Rightarrow> fs(file_name := Present r w (bs @ bytes))
            | Absent c \<Rightarrow> fs)
      else fs)"

text \<open>\<^verbatim>\<open>BinarySerialize::serialize\<close>: the constructor opens without a test, then
  \<^verbatim>\<open>process\<close> writes.\<close>

definition serialize :: "val \<Rightarrow> string \<Rightarrow> filesystem \<Rightarrow> filesystem outcome" where
  "serialize data file_name fs =
     (case open_out_trunc fs file_name of
        (fs1, is_open) \<Rightarrow> Ok (file_write (BinarySerializer_process data) file_name is_open fs1))"

text \<open>\<^verbatim>\<open>BinarySerialize::deserialize\<close>: the constructor throws when the stream is not
  open. \<open>data\<close> is the caller's object, \<open>None\<close> when the caller passes an arithmetic
  variable that it has not initialised.\<close>

definition deserialize :: "ty \<Rightarrow> val option \<Rightarrow> string \<Rightarrow> filesystem \<Rightarrow> val outcome" where
  "deserialize t data file_name fs =
     (case open_in fs file_name of
        None \<Rightarrow> Throw (MyErr ''BinarySerializer: Failed to open target file'')
      | Some file \<Rightarrow> bind (BinaryDeserializer_process t data file) (\<lambda>r. Ok (fst r)))"
section \<open>The XML codec\<close>

subsection \<open>The element tree\<close>

text \<open>
  What the codec uses of the document library: an element has a name, attributes and
  child elements. An \<^verbatim>\<open>XMLElement*\<close> that is not null is an element together
  with the siblings that follow it; \<open>None\<close> is the null pointer. Calling a member
  function through a null pointer is undefined behaviour.
\<close>

datatype XMLElement =
  XMLElement (Name: string) (Attributes: "(string \<times> string) list") (Children: "XMLElement list")

type_synonym XMLElement_ptr = "(XMLElement \<times> XMLElement list) option"

definition NewElement :: "string \<Rightarrow> XMLElement" where
  "NewElement name = XMLElement name [] []"

definition InsertEndChild :: "XMLElement \<Rightarrow> XMLElement \<Rightarrow> XMLElement" where
  "InsertEndChild parent child =
     XMLElement (Name parent) (Attributes parent) (Children parent @ [child])"

definition SetAttribute :: "string \<Rightarrow> string \<Rightarrow> XMLElement \<Rightarrow> XMLElement" where
  "SetAttribute name v e =
     XMLElement (Name e)
       (if name \<in> fst ` set (Attributes e)
        then map (\<lambda>a. if fst a = name then (name, v) else a) (Attributes e)
        else Attributes e @ [(name, v)])
       (Children e)"

fun first_named :: "string \<Rightarrow> XMLElement list \<Rightarrow> XMLElement_ptr" where
  "first_named name [] = None"
| "first_named name (e # es) = (if Name e = name then Some (e, es) else first_named name es)"

definition FirstChildElement :: "string \<Rightarrow> XMLElement_ptr \<Rightarrow> XMLElement_ptr outcome" where
  "FirstChildElement name p =
     (case p of None \<Rightarrow> Undefined | Some (e, sibs) \<Rightarrow> Ok (first_named name (Children e)))"

definition NextSiblingElement :: "string \<Rightarrow> XMLElement_ptr \<Rightarrow> XMLElement_ptr outcome" where
  "NextSiblingElement name p =
     (case p of None \<Rightarrow> Undefined | Some (e, sibs) \<Rightarrow> Ok (first_named name sibs))"

definition Attribute :: "string \<Rightarrow> XMLElement_ptr \<Rightarrow> string option outcome" where
  "Attribute name p =
     (case p of None \<Rightarrow> Undefined | Some (e, sibs) \<Rightarrow> Ok (map_of (Attributes e) name))"

text \<open>\<^verbatim>\<open>data.c_str()\<close> read as a C string: the characters before the first NUL.\<close>

definition c_str :: "string \<Rightarrow> string" where
  "c_str s = takeWhile (\<lambda>c. c \<noteq> CHR 0x00) s"

subsection \<open>\<^verbatim>\<open>XMLSerializer\<close>\<close>

text \<open>
  \<^verbatim>\<open>process(data, pos)\<close>: the element \<open>pos\<close> after the call. The source appends a
  new child and then fills it through the pointer; the model fills the child and then
  appends it, which builds the same tree.
\<close>

fun XMLSerializer_process_at :: "val \<Rightarrow> XMLElement \<Rightarrow> XMLElement" where
  "XMLSerializer_process_at (VArith a v) pos = SetAttribute ''val'' (ToStr a v) pos"
| "XMLSerializer_process_at (VString s) pos = SetAttribute ''val'' (c_str s) pos"
| "XMLSerializer_process_at (VPair x y) pos =
     InsertEndChild pos
       (XMLElement ''pair'' []
          [XMLSerializer_process_at x (NewElement ''first''),
           XMLSerializer_process_at y (NewElement ''second'')])"
| "XMLSerializer_process_at (VVector xs) pos =
     InsertEndChild pos
       (XMLElement ''vector'' []
          (SetAttribute ''val'' (ToStr size_t (int (length xs))) (NewElement ''length'')
           # map (\<lambda>x. XMLSerializer_process_at x (NewElement ''item'')) xs))"
| "XMLSerializer_process_at (VList xs) pos =
     InsertEndChild pos
       (XMLElement ''list'' []
          (SetAttribute ''val'' (ToStr size_t (int (length xs))) (NewElement ''length'')
           # map (\<lambda>x. XMLSerializer_process_at x (NewElement ''item'')) xs))"
| "XMLSerializer_process_at (VSet xs) pos =
     InsertEndChild pos
       (XMLElement ''set'' []
          (SetAttribute ''val'' (ToStr size_t (int (length xs))) (NewElement ''length'')
           # map (\<lambda>x. XMLSerializer_process_at x (NewElement ''item'')) xs))"
| "XMLSerializer_process_at (VMap es) pos =
     InsertEndChild pos
       (XMLElement ''map'' []
          (SetAttribute ''val'' (ToStr size_t (int (length es))) (NewElement ''length'')
           # map (\<lambda>e. XMLElement ''item'' []
                        [XMLSerializer_process_at (fst e) (NewElement ''key''),
                         XMLSerializer_process_at (snd e) (NewElement ''value'')]) es))"

text \<open>The constructor makes the root; the public \<^verbatim>\<open>process(data)\<close> appends one
  \<^verbatim>\<open><field>\<close> to it. The document is the list of its top-level elements.\<close>

definition XMLSerializer_root :: XMLElement where
  "XMLSerializer_root = NewElement ''serialization''"

definition XMLSerializer_process :: "val \<Rightarrow> XMLElement \<Rightarrow> XMLElement" where
  "XMLSerializer_process data root_ele =
     InsertEndChild root_ele (XMLSerializer_process_at data (NewElement ''field''))"

subsection \<open>\<^verbatim>\<open>XMLDeserializer\<close>\<close>

text \<open>The scalar reader: the attribute text goes through a \<^verbatim>\<open>double\<close>. A null
  attribute, and a \<^verbatim>\<open>tmp\<close> that the extraction has left indeterminate, make the
  behaviour undefined.\<close>

definition process_arith :: "arith \<Rightarrow> XMLElement_ptr \<Rightarrow> int outcome" where
  "process_arith a pos =
     bind (Attribute ''val'' pos) (\<lambda>val.
       case val of
         None \<Rightarrow> Undefined
       | Some text \<Rightarrow>
           (case istream_double text of
              None \<Rightarrow> Undefined
            | Some tmp \<Rightarrow> static_cast a tmp))"

text \<open>The \<^verbatim>\<open>while (item_ele != nullptr)\<close> loops of the four container readers, with
  the reader \<open>f\<close> of one item and the insertion \<open>ins\<close> into the container.\<close>

function item_loop ::
  "(XMLElement_ptr \<Rightarrow> 'v outcome) \<Rightarrow> ('v \<Rightarrow> 'c \<Rightarrow> 'c outcome) \<Rightarrow> XMLElement_ptr \<Rightarrow> 'c
     \<Rightarrow> 'c outcome"
where
  "item_loop f ins None data = Ok data"
| "item_loop f ins (Some (e, sibs)) data =
     bind (f (Some (e, sibs))) (\<lambda>v.
       bind (ins v data) (\<lambda>data'.
         item_loop f ins (first_named ''item'' sibs) data'))"
  by pat_completeness auto
termination
  apply (relation "measure (\<lambda>(f, ins, p, data). case p of None \<Rightarrow> 0 | Some (e, sibs) \<Rightarrow> Suc (length sibs))")
   apply simp
  subgoal for f ins e sibs data v data'
    by (induction sibs) (auto split: option.splits)
  done

definition push_back :: "'a \<Rightarrow> 'a list \<Rightarrow> 'a list outcome" where
  "push_back v data = Ok (data @ [v])"

text \<open>
  \<^verbatim>\<open>process(T& data, XMLElement* pos)\<close>. The length element is read into the local
  \<^verbatim>\<open>len\<close>, which no reader uses afterwards.
\<close>

primrec XMLDeserializer_process_at :: "ty \<Rightarrow> val \<Rightarrow> XMLElement_ptr \<Rightarrow> val outcome" where
  "XMLDeserializer_process_at (TArith a) = (\<lambda>data pos.
     bind (process_arith a pos) (\<lambda>v. Ok (VArith a v)))"
| "XMLDeserializer_process_at TString = (\<lambda>data pos.
     bind (Attribute ''val'' pos) (\<lambda>val.
       case val of None \<Rightarrow> Undefined | Some text \<Rightarrow> Ok (VString text)))"
| "XMLDeserializer_process_at (TPair t1 t2) = (\<lambda>data pos.
     bind (FirstChildElement ''pair'' pos) (\<lambda>pair_ele.
       bind (FirstChildElement ''first'' pair_ele) (\<lambda>first_ele.
         bind (XMLDeserializer_process_at t1 (first data) first_ele) (\<lambda>x.
           bind (FirstChildElement ''second'' pair_ele) (\<lambda>second_ele.
             bind (XMLDeserializer_process_at t2 (second data) second_ele) (\<lambda>y.
               Ok (VPair x y)))))))"
| "XMLDeserializer_process_at (TVector t) = (\<lambda>data pos.
     bind (FirstChildElement ''vector'' pos) (\<lambda>vec_ele.
       bind (FirstChildElement ''length'' vec_ele) (\<lambda>len_ele.
         bind (process_arith size_t len_ele) (\<lambda>len.
           bind (FirstChildElement ''item'' vec_ele) (\<lambda>item_ele.
             bind (item_loop (XMLDeserializer_process_at t (default_val t)) push_back
                     item_ele (clear (elems data)))
               (\<lambda>r. Ok (VVector r)))))))"
| "XMLDeserializer_process_at (TList t) = (\<lambda>data pos.
     bind (FirstChildElement ''list'' pos) (\<lambda>list_ele.
       bind (FirstChildElement ''length'' list_ele) (\<lambda>len_ele.
         bind (process_arith size_t len_ele) (\<lambda>len.
           bind (FirstChildElement ''item'' list_ele) (\<lambda>item_ele.
             bind (item_loop (XMLDeserializer_process_at t (default_val t)) push_back
                     item_ele (clear (elems data)))
               (\<lambda>r. Ok (VList r)))))))"
| "XMLDeserializer_process_at (TSet t) = (\<lambda>data pos.
     bind (FirstChildElement ''set'' pos) (\<lambda>set_ele.
       bind (FirstChildElement ''length'' set_ele) (\<lambda>len_ele.
         bind (process_arith size_t len_ele) (\<lambda>len.
           bind (FirstChildElement ''item'' set_ele) (\<lambda>item_ele.
             bind (item_loop (XMLDeserializer_process_at t (default_val t)) insert_value
                     item_ele (clear (elems data)))
               (\<lambda>r. Ok (VSet r)))))))"
| "XMLDeserializer_process_at (TMap t1 t2) = (\<lambda>data pos.
     bind (FirstChildElement ''map'' pos) (\<lambda>map_ele.
       bind (FirstChildElement ''length'' map_ele) (\<lambda>len_ele.
         bind (process_arith size_t len_ele) (\<lambda>len.
           bind (FirstChildElement ''item'' map_ele) (\<lambda>item_ele.
             bind (item_loop
                     (\<lambda>item.
                        bind (FirstChildElement ''key'' item) (\<lambda>key_ele.
                          bind (XMLDeserializer_process_at t1 (default_val t1) key_ele) (\<lambda>k.
                            bind (FirstChildElement ''value'' item) (\<lambda>value_ele.
                              bind (XMLDeserializer_process_at t2 (default_val t2) value_ele) (\<lambda>v.
                                Ok (k, v))))))
                     assign_value
                     item_ele (clear (entries data)))
               (\<lambda>r. Ok (VMap r)))))))"

text \<open>
  The reader's state is its cursor \<^verbatim>\<open>cur_ele\<close> (and the root). The constructor
  is given the document that \<^verbatim>\<open>LoadFile\<close> or \<^verbatim>\<open>Parse\<close> built.
\<close>

record XMLDeserializer =
  root_ele :: XMLElement_ptr
  cur_ele :: XMLElement_ptr

definition XMLDeserializer_ctor :: "XMLElement list \<Rightarrow> XMLDeserializer outcome" where
  "XMLDeserializer_ctor file =
     (case first_named ''serialization'' file of
        None \<Rightarrow> Throw (MyErr ''Failed to found root element <serialization>.'')
      | Some root_p \<Rightarrow>
          (case first_named ''field'' (Children (fst root_p)) of
             None \<Rightarrow> Throw (MyErr ''Element <field> not found in <serialization>.'')
           | Some field_p \<Rightarrow> Ok \<lparr>root_ele = Some root_p, cur_ele = Some field_p\<rparr>))"

definition XMLDeserializer_process ::
  "ty \<Rightarrow> val \<Rightarrow> XMLDeserializer \<Rightarrow> (val \<times> XMLDeserializer) outcome"
where
  "XMLDeserializer_process t data d =
     (if cur_ele d = None then Throw (MyErr ''Field not found.'')
      else
        bind (XMLDeserializer_process_at t data (cur_ele d)) (\<lambda>v.
          bind (NextSiblingElement ''field'' (cur_ele d)) (\<lambda>next.
            Ok (v, d\<lparr>cur_ele := next\<rparr>))))"

text \<open>
  The expansion of \<^verbatim>\<open>SERIALIZE_n\<close> in a reader generated by \<^verbatim>\<open>MY_SERIALIZE\<close>:
  one public \<^verbatim>\<open>process\<close> call per declared field, in order, on the same reader.
\<close>

fun XMLDeserializer_SERIALIZE ::
  "(ty \<times> val) list \<Rightarrow> XMLDeserializer \<Rightarrow> (val list \<times> XMLDeserializer) outcome"
where
  "XMLDeserializer_SERIALIZE [] d = Ok ([], d)"
| "XMLDeserializer_SERIALIZE (var # vars) d =
     bind (XMLDeserializer_process (fst var) (snd var) d) (\<lambda>r.
       bind (XMLDeserializer_SERIALIZE vars (snd r)) (\<lambda>rs. Ok (fst r # fst rs, snd rs)))"

text \<open>The \<^verbatim>\<open><field>\<close> elements at and after the cursor.\<close>

definition fields_left :: "XMLDeserializer \<Rightarrow> nat" where
  "fields_left d =
     (case cur_ele d of
        None \<Rightarrow> 0
      | Some p \<Rightarrow> Suc (length (filter (\<lambda>e. Name e = ''field'') (snd p))))"

text \<open>The \<^verbatim>\<open><item>\<close> elements at and after a pointer: what the item loops visit.\<close>

definition items_at :: "XMLElement_ptr \<Rightarrow> nat" where
  "items_at p =
     (case p of
        None \<Rightarrow> 0
      | Some q \<Rightarrow> Suc (length (filter (\<lambda>e. Name e = ''item'') (snd q))))"

subsection \<open>The top functions of the XML codec\<close>







section \<open>Supported values\<close>







subsection \<open>The values of the test program\<close>



section \<open>Properties of the Base64 transform\<close>

lemma masks:
  "(0xfc::byte) = NOT (mask 2)" "(0x03::byte) = mask 2" "(0xf0::byte) = NOT (mask 4)"
  "(0x0f::byte) = mask 4" "(0xc0::byte) = NOT (mask 6)" "(0x3f::byte) = mask 6"
  "(0x30::byte) = push_bit 4 (mask 2)" "(0x3c::byte) = push_bit 2 (mask 4)"
  by (simp_all add: mask_eq_exp_minus_1)

lemma all_less_8:
  "(\<forall>n<8. P n) = (P 0 \<and> P 1 \<and> P 2 \<and> P 3 \<and> P 4 \<and> P 5 \<and> P 6 \<and> P (7::nat))"
  by (simp add: eval_nat_numeral All_less_Suc conj_ac)

lemma byte_bit_hi: "8 \<le> n \<Longrightarrow> bit (b::byte) n = False"
  by (auto dest: bit_imp_le_length)

lemma byte_eqI:
  fixes a b :: byte
  assumes "\<forall>n<8. bit a n = bit b n"
  shows "a = b"
  using assms by (intro bit_word_eqI) simp

lemmas byte_bits = all_less_8 bit_simps byte_bit_hi numeral_2_eq_2[symmetric] numeral_3_eq_3[symmetric]

lemma byte_lt_64:
  fixes v :: byte
  assumes "\<not> bit v 6" "\<not> bit v 7"
  shows "v < 64"
proof -
  have "v = v AND mask 6"
    using assms by (intro byte_eqI) (simp add: byte_bits)
  moreover have "v AND mask 6 < 2 ^ 6"
    by (rule and_mask_less_size) (simp add: word_size)
  ultimately show ?thesis by simp
qed

lemma q0: "drop_bit 2 ((a::byte) AND 0xfc) = drop_bit 2 a"
  unfolding masks by (rule byte_eqI) (simp add: byte_bits)

lemma q1: "push_bit 4 ((a::byte) AND 0x03) + drop_bit 4 (b AND 0xf0) = push_bit 4 (a AND mask 2) OR drop_bit 4 b"
  unfolding masks 
  apply (subst disjunctive_add_eq_or)
   apply (rule byte_eqI) apply (simp add: byte_bits)
   apply (rule byte_eqI) apply (simp add: byte_bits)
  done

lemma q2: "push_bit 2 ((a::byte) AND 0x0f) + drop_bit 6 (b AND 0xc0) = push_bit 2 (a AND mask 4) OR drop_bit 6 b"
  unfolding masks 
  apply (subst disjunctive_add_eq_or)
   apply (rule byte_eqI) apply (simp add: byte_bits)
   apply (rule byte_eqI) apply (simp add: byte_bits)
  done

lemma char_array_4_of_sextets: "char_array_4_of a b c = sextets a b c"
  unfolding char_array_4_of_def sextets_def unfolding q0 q1 q2 unfolding masks ..

lemma d0: "push_bit 2 (drop_bit 2 (a::byte)) + drop_bit 4 ((push_bit 4 (a AND mask 2) OR drop_bit 4 (b::byte)) AND 0x30) = a"
  unfolding masks 
  apply (subst disjunctive_add_eq_or)
   apply (rule byte_eqI) apply (simp add: byte_bits)
   apply (rule byte_eqI) apply (simp add: byte_bits)
  done

lemma d1: "push_bit 4 ((push_bit 4 (a AND mask 2) OR drop_bit 4 (b::byte)) AND 0xf) + drop_bit 2 ((push_bit 2 (b AND mask 4) OR drop_bit 6 (c::byte)) AND 0x3c) = b"
  unfolding masks 
  apply (subst disjunctive_add_eq_or)
   apply (rule byte_eqI) apply (simp add: byte_bits)
   apply (rule byte_eqI) apply (simp add: byte_bits)
  done

lemma d2: "push_bit 6 ((push_bit 2 (b AND mask 4) OR drop_bit 6 (c::byte)) AND 0x3) + (c AND mask 6) = c"
  unfolding masks 
  apply (subst disjunctive_add_eq_or)
   apply (rule byte_eqI) apply (simp add: byte_bits)
   apply (rule byte_eqI) apply (simp add: byte_bits)
  done

lemma char_array_3_of_4: "char_array_3_of [v0, v1, v2, v3] = [push_bit 2 v0 + drop_bit 4 (v1 AND 0x30),
      push_bit 4 (v1 AND 0xf) + drop_bit 2 (v2 AND 0x3c),
      push_bit 6 (v2 AND 0x3) + v3]"
  by (simp add: char_array_3_of_def)

lemma dec_enc_group: "char_array_3_of (char_array_4_of a b c) = [a, b, c]"
  unfolding char_array_4_of_sextets sextets_def char_array_3_of_4 d0 d1 d2 ..

lemma sextet_lt: "v \<in> set (char_array_4_of a b c) \<Longrightarrow> v < 64"
  unfolding char_array_4_of_sextets sextets_def
  by (auto intro!: byte_lt_64 simp: byte_bits)

lemma sextets_zero: "sextets a 0 0 = [drop_bit 2 a, push_bit 4 (a AND mask 2), 0, 0]"
  "sextets a b 0 = [drop_bit 2 a, push_bit 4 (a AND mask 2) OR drop_bit 4 b, push_bit 2 (b AND mask 4), 0]"
  by (simp_all add: sextets_def)

lemma list3_induct [case_names Nil One Two Step]:
  assumes "P []" "\<And>a. P [a]" "\<And>a b. P [a, b]"
    and "\<And>a b c xs. P xs \<Longrightarrow> P (a # b # c # xs)"
  shows "P xs"
proof (induction xs rule: length_induct)
  case (1 xs)
  show ?case
  proof (cases xs)
    case Nil
    then show ?thesis using assms(1) by simp
  next
    case (Cons a ys)
    show ?thesis
    proof (cases ys)
      case Nil
      then show ?thesis using Cons assms(2) by simp
    next
      case (Cons b zs)
      show ?thesis
      proof (cases zs)
        case Nil
        then show ?thesis using \<open>xs = a # ys\<close> \<open>ys = b # zs\<close> assms(3) by simp
      next
        case (Cons c ws)
        have "P ws" using 1 \<open>xs = a # ys\<close> \<open>ys = b # zs\<close> Cons by simp
        then show ?thesis using \<open>xs = a # ys\<close> \<open>ys = b # zs\<close> Cons assms(4) by simp
      qed
    qed
  qed
qed

lemma encode_loop_acc:
  "encode_loop data [] enc = (fst (encode_loop data [] []), enc @ snd (encode_loop data [] []))"
proof (induction data arbitrary: enc rule: list3_induct)
  case (Step a b c xs)
  have "encode_loop (a # b # c # xs) [] enc
        = encode_loop xs [] (enc @ map base64_index (char_array_4_of a b c))" for enc
    by simp
  then show ?case using Step[of "enc @ map base64_index (char_array_4_of a b c)"]
      Step[of "map base64_index (char_array_4_of a b c)"] by simp
qed simp_all

lemma base64_encode_Nil: "base64_encode [] = []"
  by (simp add: base64_encode_def)

lemma base64_encode_One: "base64_encode [a] = encode_tail [a]"
  by (simp add: base64_encode_def)

lemma base64_encode_Two: "base64_encode [a, b] = encode_tail [a, b]"
  by (simp add: base64_encode_def)

lemma base64_encode_Step:
  "base64_encode (a # b # c # xs) = map base64_index (char_array_4_of a b c) @ base64_encode xs"
proof -
  have "encode_loop (a # b # c # xs) [] []
        = encode_loop xs [] (map base64_index (char_array_4_of a b c))"
    by simp
  also have "\<dots> = (fst (encode_loop xs [] []),
                  map base64_index (char_array_4_of a b c) @ snd (encode_loop xs [] []))"
    by (rule encode_loop_acc)
  finally show ?thesis
    by (simp add: base64_encode_def split: prod.splits)
qed

lemma encode_tail_One:
  "encode_tail [a] = [base64_index (drop_bit 2 a), base64_index (push_bit 4 (a AND mask 2)), CHR ''='', CHR ''='']"
  by (simp add: encode_tail_def char_array_4_of_sextets sextets_def numeral_3_eq_3)

lemma encode_tail_Two:
  "encode_tail [a, b] = [base64_index (drop_bit 2 a), base64_index (push_bit 4 (a AND mask 2) OR drop_bit 4 b),
     base64_index (push_bit 2 (b AND mask 4)), CHR ''='']"
  by (simp add: encode_tail_def char_array_4_of_sextets sextets_def numeral_3_eq_3)

lemma string_find_nth:
  "distinct xs \<Longrightarrow> n < length xs \<Longrightarrow> string_find xs (xs ! n) = Some n"
proof (induction xs arbitrary: n)
  case (Cons x xs)
  then show ?case by (cases n) auto
qed simp

lemma string_find_None: "string_find xs c = None \<longleftrightarrow> c \<notin> set xs"
  by (induction xs) auto

lemma distinct_base64_chars: "distinct base64_chars"
  by (simp add: base64_chars_def)

lemma length_base64_chars: "length base64_chars = 64"
  by (simp add: base64_chars_def)

lemma base64_chars_cond:
  "\<forall>c\<in>set base64_chars. c \<noteq> CHR ''='' \<and> (isalnum_C c \<or> c = CHR ''+'' \<or> c = CHR ''/'')"
  by (simp add: base64_chars_def isalnum_C_def)

lemma NUL_notin_base64_chars: "CHR 0x00 \<notin> set base64_chars"
  by (simp add: base64_chars_def)

lemma unat_lt_64: "(v::byte) < 64 \<Longrightarrow> unat v < 64"
  by (simp add: word_less_nat_alt)

lemma base64_index_in: "v < 64 \<Longrightarrow> base64_index v \<in> set base64_chars"
  by (simp add: base64_index_def length_base64_chars unat_lt_64)

lemma find_base64_index: "v < 64 \<Longrightarrow> string_find base64_chars (base64_index v) = Some (unat v)"
  unfolding base64_index_def
  by (rule string_find_nth) (simp_all add: distinct_base64_chars length_base64_chars unat_lt_64)


lemma sextets_lt: "v \<in> set (sextets a b c) \<Longrightarrow> v < 64"
  using sextet_lt by (simp add: char_array_4_of_sextets)

lemma lookup_group_index:
  "\<forall>v\<in>set vs. v < 64 \<Longrightarrow> lookup_group (map base64_index vs) = Inr vs"
  by (induction vs) (simp_all add: find_base64_index)

lemma lookup_tail_index:
  "\<forall>v\<in>set vs. v < 64 \<Longrightarrow> lookup_tail (map base64_index vs @ replicate k (CHR 0x00)) = vs @ replicate k 0"
proof -
  have "string_find base64_chars (CHR 0x00) = None"
    using NUL_notin_base64_chars by (simp add: string_find_None)
  then show "\<forall>v\<in>set vs. v < 64 \<Longrightarrow> ?thesis"
    by (induction vs) (simp_all add: lookup_tail_def find_base64_index)
qed

lemma decode_chars_group:
  assumes "loop_cond isalnum c0" "loop_cond isalnum c1" "loop_cond isalnum c2" "loop_cond isalnum c3"
  shows "decode_chars isalnum (c0 # c1 # c2 # c3 # rest) [] ret =
           (case lookup_group [c0, c1, c2, c3] of
              Inl e \<Rightarrow> Inl e
            | Inr a4 \<Rightarrow> decode_chars isalnum rest [] (ret @ char_array_3_of a4))"
  using assms by (simp add: loop_cond_def)

lemma decode_chars_stop:
  "decode_chars isalnum (CHR ''='' # rest) buf ret = Inr (buf, ret)"
  by simp

lemma loop_cond_index: "v < 64 \<Longrightarrow> loop_cond isalnum_C (base64_index v)"
  using base64_chars_cond base64_index_in by (auto simp: loop_cond_def)

lemma decode_chars_sextets:
  "decode_chars isalnum_C (map base64_index (sextets a b c) @ rest) [] ret
     = decode_chars isalnum_C rest [] (ret @ [a, b, c])"
proof -
  obtain v0 v1 v2 v3 where vs: "sextets a b c = [v0, v1, v2, v3]"
    by (simp add: sextets_def)
  have lt: "\<forall>v\<in>set [v0, v1, v2, v3]. v < 64"
    using sextets_lt[of _ a b c] vs by simp
  have "lookup_group (map base64_index [v0, v1, v2, v3]) = Inr [v0, v1, v2, v3]"
    by (rule lookup_group_index) (rule lt)
  moreover have "char_array_3_of [v0, v1, v2, v3] = [a, b, c]"
    using dec_enc_group[of a b c] vs by (simp add: char_array_4_of_sextets)
  ultimately show ?thesis
    using lt decode_chars_group[of isalnum_C "base64_index v0" "base64_index v1"
        "base64_index v2" "base64_index v3" rest ret]
    by (simp add: vs loop_cond_index)
qed

lemma decode_tail_One:
  "decode_tail [base64_index (drop_bit 2 a), base64_index (push_bit 4 (a AND mask 2))] = [a]"
proof -
  have s: "sextets a 0 0 = [drop_bit 2 a, push_bit 4 (a AND mask 2), 0, 0]"
    by (simp add: sextets_def)
  then have lt: "\<forall>v\<in>set [drop_bit 2 a, push_bit 4 (a AND mask 2)]. v < 64"
    using sextets_lt[of _ a 0 0] by simp
  have "lookup_tail (map base64_index [drop_bit 2 a, push_bit 4 (a AND mask 2)] @ replicate 2 (CHR 0x00))
        = [drop_bit 2 a, push_bit 4 (a AND mask 2)] @ replicate 2 0"
    by (rule lookup_tail_index) (rule lt)
  then have "lookup_tail ([base64_index (drop_bit 2 a), base64_index (push_bit 4 (a AND mask 2))]
               @ replicate 2 (CHR 0x00)) = sextets a 0 0"
    by (simp add: s numeral_2_eq_2)
  then show ?thesis
    using dec_enc_group[of a 0 0]
    by (simp add: decode_tail_def char_array_4_of_sextets)
qed

lemma decode_tail_Two:
  "decode_tail [base64_index (drop_bit 2 a), base64_index (push_bit 4 (a AND mask 2) OR drop_bit 4 b),
     base64_index (push_bit 2 (b AND mask 4))] = [a, b]"
proof -
  let ?vs = "[drop_bit 2 a, push_bit 4 (a AND mask 2) OR drop_bit 4 b, push_bit 2 (b AND mask 4)]"
  have s: "sextets a b 0 = ?vs @ [0]"
    by (simp add: sextets_def)
  then have lt: "\<forall>v\<in>set ?vs. v < 64"
    using sextets_lt[of _ a b 0] by simp
  have "lookup_tail (map base64_index ?vs @ replicate 1 (CHR 0x00)) = ?vs @ replicate 1 0"
    by (rule lookup_tail_index) (rule lt)
  then have "lookup_tail (map base64_index ?vs @ replicate (4 - length ?vs) (CHR 0x00)) = sextets a b 0"
    by (simp add: s)
  then show ?thesis
    using dec_enc_group[of a b 0]
    by (simp add: decode_tail_def char_array_4_of_sextets)
qed


lemma decode_chars_encode:
  "\<exists>buf r. decode_chars isalnum_C (base64_encode data) [] ret = Inr (buf, r)
      \<and> (if 0 < length buf then r @ decode_tail buf else r) = ret @ data"
proof (induction data arbitrary: ret rule: list3_induct)
  case Nil
  show ?case by (simp add: base64_encode_Nil)
next
  case (One a)
  let ?v0 = "drop_bit 2 a" and ?v1 = "push_bit 4 (a AND mask 2)"
  have "sextets a 0 0 = [?v0, ?v1, 0, 0]" by (simp add: sextets_def)
  then have "?v0 < 64" "?v1 < 64" using sextets_lt[of _ a 0 0] by simp_all
  then have c: "loop_cond isalnum_C (base64_index ?v0)" "loop_cond isalnum_C (base64_index ?v1)"
    by (simp_all add: loop_cond_index)
  have "decode_chars isalnum_C (base64_encode [a]) [] ret
        = Inr ([base64_index ?v0, base64_index ?v1], ret)"
    using c by (simp add: base64_encode_One encode_tail_One loop_cond_def)
  then show ?case using decode_tail_One[of a] by simp
next
  case (Two a b)
  let ?v0 = "drop_bit 2 a" and ?v1 = "push_bit 4 (a AND mask 2) OR drop_bit 4 b"
    and ?v2 = "push_bit 2 (b AND mask 4)"
  have "sextets a b 0 = [?v0, ?v1, ?v2, 0]" by (simp add: sextets_def)
  then have "?v0 < 64" "?v1 < 64" "?v2 < 64" using sextets_lt[of _ a b 0] by simp_all
  then have c: "loop_cond isalnum_C (base64_index ?v0)" "loop_cond isalnum_C (base64_index ?v1)"
     "loop_cond isalnum_C (base64_index ?v2)"
    by (simp_all add: loop_cond_index)
  have "decode_chars isalnum_C (base64_encode [a, b]) [] ret
        = Inr ([base64_index ?v0, base64_index ?v1, base64_index ?v2], ret)"
    using c by (simp add: base64_encode_Two encode_tail_Two loop_cond_def)
  then show ?case using decode_tail_Two[of a b] by simp
next
  case (Step a b c xs)
  have "decode_chars isalnum_C (base64_encode (a # b # c # xs)) [] ret
        = decode_chars isalnum_C (base64_encode xs) [] (ret @ [a, b, c])"
    by (simp only: base64_encode_Step char_array_4_of_sextets decode_chars_sextets)
  then show ?case using Step[of "ret @ [a, b, c]"] by simp
qed

lemma base64_encode_chars:
  "\<forall>c\<in>set (base64_encode data). c \<in> set base64_chars \<or> c = CHR ''=''"
proof (induction data rule: list3_induct)
  case Nil
  show ?case by (simp add: base64_encode_Nil)
next
  case (One a)
  have "sextets a 0 0 = [drop_bit 2 a, push_bit 4 (a AND mask 2), 0, 0]" by (simp add: sextets_def)
  then have "drop_bit 2 a < 64" "push_bit 4 (a AND mask 2) < 64" using sextets_lt[of _ a 0 0] by simp_all
  then show ?case by (simp add: base64_encode_One encode_tail_One base64_index_in)
next
  case (Two a b)
  let ?v0 = "drop_bit 2 a" and ?v1 = "push_bit 4 (a AND mask 2) OR drop_bit 4 b"
    and ?v2 = "push_bit 2 (b AND mask 4)"
  have "sextets a b 0 = [?v0, ?v1, ?v2, 0]" by (simp add: sextets_def)
  then have "?v0 < 64" "?v1 < 64" "?v2 < 64" using sextets_lt[of _ a b 0] by simp_all
  then show ?case by (simp add: base64_encode_Two encode_tail_Two base64_index_in)
next
  case (Step a b c xs)
  have "\<forall>v\<in>set (char_array_4_of a b c). base64_index v \<in> set base64_chars"
    using sextet_lt base64_index_in by blast
  then show ?case using Step by (auto simp: base64_encode_Step)
qed

lemma length_base64_encode_mod: "length (base64_encode data) mod 4 = 0"
proof (induction data rule: list3_induct)
  case (Step a b c xs)
  then show ?case by (simp add: base64_encode_Step char_array_4_of_def)
qed (simp_all add: base64_encode_Nil base64_encode_One base64_encode_Two encode_tail_One encode_tail_Two)

lemma clean_base64_encode:
  "clean_encoded_of isalnum_C (base64_encode data) = base64_encode data"
  unfolding clean_encoded_of_def
  using base64_encode_chars[of data] base64_chars_cond
  by (intro filter_True) blast

lemma decode_loop_chars:
  "in_pos + int (length (takeWhile (\<lambda>c. c \<noteq> CHR ''='') s)) \<le> INT_MAX
   \<Longrightarrow> decode_loop isalnum s in_pos buf ret = lift (decode_chars isalnum s buf ret)"
proof (induction s arbitrary: in_pos buf ret)
  case Nil
  show ?case by (simp add: lift_def)
next
  case (Cons c s)
  show ?case
  proof (cases "c \<noteq> CHR ''='' \<and> (isalnum c \<or> c = CHR ''+'' \<or> c = CHR ''/'')")
    case False
    then show ?thesis by (auto simp: lift_def)
  next
    case True
    with Cons.prems have b: "in_pos + 1 + int (length (takeWhile (\<lambda>c. c \<noteq> CHR ''='') s)) \<le> INT_MAX"
      by simp
    then have n: "in_pos \<noteq> INT_MAX" by linarith
    show ?thesis
      using True n Cons.IH[OF b] by (simp add: lift_def split: sum.splits)
  qed
qed

lemma div3_add: "(3 * q + x) div 3 = q + x div (3::nat)"
  by simp

lemma div3_step: "4 + 4 * ((n + 2) div 3) = 4 * ((5 + n) div 3)" for n :: nat
proof -
  have "(5 + n) div 3 = (3 * 1 + (n + 2)) div 3" by (simp add: add.commute)
  also have "\<dots> = 1 + (n + 2) div 3" by (rule div3_add)
  finally show ?thesis by simp
qed

lemma body_length:
  fixes n b k :: nat
  assumes "b + k = 4 * ((n + 2) div 3)"
    and "k = (if n mod 3 = 1 then 2 else if n mod 3 = 2 then 1 else 0)"
  shows "b = (4 * n + 2) div 3"
proof -
  define q r where "q = n div 3" and "r = n mod 3"
  have n: "n = 3 * q + r" and r: "r = 0 \<or> r = 1 \<or> r = 2"
    unfolding q_def r_def by simp linarith
  have 1: "(n + 2) div 3 = q + (r + 2) div 3"
    unfolding n using div3_add[of q "r + 2"] by (simp add: add.assoc)
  have "4 * n + 2 = 3 * (4 * q) + (4 * r + 2)" unfolding n by simp
  then have 2: "(4 * n + 2) div 3 = 4 * q + (4 * r + 2) div 3"
    using div3_add[of "4 * q" "4 * r + 2"] by simp
  have k: "k = (if r = 1 then 2 else if r = 2 then 1 else 0)"
    using assms(2) unfolding r_def by simp
  show ?thesis
    using r assms(1) unfolding 1 2 k by auto
qed

lemma length_base64_encode: "length (base64_encode data) = 4 * ((length data + 2) div 3)"
proof (induction data rule: list3_induct)
  case (Step a b c xs)
  then show ?case
    using div3_step[of "length xs"] by (simp add: base64_encode_Step char_array_4_of_def)
qed (simp_all add: base64_encode_Nil base64_encode_One base64_encode_Two encode_tail_One encode_tail_Two)

lemma base64_encode_form:
  "\<exists>body. base64_encode data
      = body @ replicate (if length data mod 3 = 1 then 2 else if length data mod 3 = 2 then 1 else 0) (CHR ''='')
     \<and> set body \<subseteq> set base64_chars"
proof (induction data rule: list3_induct)
  case Nil
  show ?case by (simp add: base64_encode_Nil)
next
  case (One a)
  have "sextets a 0 0 = [drop_bit 2 a, push_bit 4 (a AND mask 2), 0, 0]" by (simp add: sextets_def)
  then have "drop_bit 2 a < 64" "push_bit 4 (a AND mask 2) < 64" using sextets_lt[of _ a 0 0] by simp_all
  then have "base64_encode [a] = [base64_index (drop_bit 2 a), base64_index (push_bit 4 (a AND mask 2))] @ replicate 2 (CHR ''='')
     \<and> set [base64_index (drop_bit 2 a), base64_index (push_bit 4 (a AND mask 2))] \<subseteq> set base64_chars"
    by (simp add: base64_encode_One encode_tail_One base64_index_in numeral_2_eq_2)
  then show ?case by (intro exI[of _ "[base64_index (drop_bit 2 a), base64_index (push_bit 4 (a AND mask 2))]"]) simp
next
  case (Two a b)
  let ?v0 = "drop_bit 2 a" and ?v1 = "push_bit 4 (a AND mask 2) OR drop_bit 4 b"
    and ?v2 = "push_bit 2 (b AND mask 4)"
  have "sextets a b 0 = [?v0, ?v1, ?v2, 0]" by (simp add: sextets_def)
  then have "?v0 < 64" "?v1 < 64" "?v2 < 64" using sextets_lt[of _ a b 0] by simp_all
  then have "base64_encode [a, b] = map base64_index [?v0, ?v1, ?v2] @ replicate 1 (CHR ''='')
     \<and> set (map base64_index [?v0, ?v1, ?v2]) \<subseteq> set base64_chars"
    by (simp add: base64_encode_Two encode_tail_Two base64_index_in)
  then show ?case by (intro exI[of _ "map base64_index [?v0, ?v1, ?v2]"]) simp
next
  case (Step a b c xs)
  then obtain body where b: "base64_encode xs
      = body @ replicate (if length xs mod 3 = 1 then 2 else if length xs mod 3 = 2 then 1 else 0) (CHR ''='')"
     "set body \<subseteq> set base64_chars" by blast
  have m: "length (a # b # c # xs) mod 3 = length xs mod 3" by simp
  have "set (map base64_index (char_array_4_of a b c)) \<subseteq> set base64_chars"
    using sextet_lt base64_index_in by auto
  then show ?case
    unfolding m base64_encode_Step
    using b by (intro exI[of _ "map base64_index (char_array_4_of a b c) @ body"]) simp
qed

lemma count_trailing_pad_append:
  "CHR ''='' \<notin> set body \<Longrightarrow> count_trailing_pad (body @ replicate k (CHR ''='')) = k"
proof -
  assume "CHR ''='' \<notin> set body"
  then have "takeWhile (\<lambda>c. c = CHR ''='') (rev body) = []"
    by (cases "rev body") (auto simp: takeWhile_eq_Nil_iff dest: arg_cong[where f=set])
  then show ?thesis
    by (simp add: count_trailing_pad_def takeWhile_append)
qed

lemma takeWhile_body:
  assumes "set body \<subseteq> set base64_chars"
  shows "takeWhile (\<lambda>c. c \<noteq> CHR ''='') (body @ replicate k (CHR ''='')) = body"
proof -
  have "\<forall>c\<in>set body. c \<noteq> CHR ''=''" using assms base64_chars_cond by blast
  then show ?thesis by (cases k) (simp_all add: takeWhile_append2)
qed

lemma base64_encode_before_pad:
  "length (takeWhile (\<lambda>c. c \<noteq> CHR ''='') (base64_encode data)) = (4 * length data + 2) div 3"
proof -
  define k where "k = (if length data mod 3 = 1 then 2 else if length data mod 3 = 2 then 1 else (0::nat))"
  obtain body where b: "base64_encode data = body @ replicate k (CHR ''='')"
    "set body \<subseteq> set base64_chars"
    using base64_encode_form[of data] unfolding k_def by blast
  have "length body + k = 4 * ((length data + 2) div 3)"
    using length_base64_encode[of data] b(1) by simp
  then have "length body = (4 * length data + 2) div 3"
    by (rule body_length) (rule k_def)
  then show ?thesis using takeWhile_body[OF b(2), of k] b(1) by simp
qed

lemma base64_decode_encode:
  assumes "length bytes < 1610612736"
  shows "base64_decode (base64_encode bytes) = Ok bytes"
proof -
  obtain buf r where d: "decode_chars isalnum_C (base64_encode bytes) [] [] = Inr (buf, r)"
    and r: "(if 0 < length buf then r @ decode_tail buf else r) = bytes"
    using decode_chars_encode[of bytes "[]"] by auto
  have "(4 * length bytes + 2) div 3 \<le> 2147483647" using assms by simp
  then have "0 + int (length (takeWhile (\<lambda>c. c \<noteq> CHR ''='') (base64_encode bytes))) \<le> INT_MAX"
    by (simp add: base64_encode_before_pad INT_MAX_def)
  then have l: "decode_loop isalnum_C (base64_encode bytes) 0 [] [] = Ok (buf, r)"
    using decode_loop_chars[of 0 "base64_encode bytes" isalnum_C "[]" "[]"] d by (simp add: lift_def)
  show ?thesis
  proof (cases "base64_encode bytes = []")
    case True
    then have "bytes = []" using d r by auto
    then show ?thesis using True by (simp add: base64_decode_def base64_decode_in_def)
  next
    case False
    then show ?thesis
      using l r
      by (auto simp add: base64_decode_def base64_decode_in_def clean_base64_encode
          length_base64_encode_mod)
  qed
qed

lemma lookup_group_table:
  "set g \<subseteq> set base64_chars \<Longrightarrow> \<exists>a4. lookup_group g = Inr a4"
proof (induction g)
  case (Cons c g)
  then obtain a4 where "lookup_group g = Inr a4" by auto
  moreover obtain pos where "string_find base64_chars c = Some pos"
    using Cons.prems string_find_None[of base64_chars c] by (cases "string_find base64_chars c") auto
  ultimately show ?case by simp
qed simp

lemma decode_loop_overflow:
  assumes "set body \<subseteq> set base64_chars" "set buf \<subseteq> set base64_chars"
    and "in_pos \<le> INT_MAX" "INT_MAX < in_pos + int (length body)"
  shows "decode_loop isalnum_C (body @ rest) in_pos buf ret = Undefined"
  using assms
proof (induction body arbitrary: in_pos buf ret)
  case Nil
  then show ?case by simp
next
  case (Cons c body)
  from Cons.prems(1) have c: "c \<in> set base64_chars" and body: "set body \<subseteq> set base64_chars"
    by simp_all
  from c have cond: "c \<noteq> CHR ''='' \<and> (isalnum_C c \<or> c = CHR ''+'' \<or> c = CHR ''/'')"
    using base64_chars_cond by blast
  show ?case
  proof (cases "in_pos = INT_MAX")
    case True
    then show ?thesis using cond by simp
  next
    case False
    then have le: "in_pos + 1 \<le> INT_MAX" using Cons.prems(3) by simp
    have gt: "INT_MAX < in_pos + 1 + int (length body)" using Cons.prems(4) by simp
    show ?thesis
    proof (cases "length buf = 3")
      case True
      have "set (buf @ [c]) \<subseteq> set base64_chars" using Cons.prems(2) c by simp
      then obtain a4 where "lookup_group (buf @ [c]) = Inr a4"
        using lookup_group_table by blast
      then show ?thesis
        using cond False True Cons.IH[OF body _ le gt, of "[]"] by simp
    next
      case b: False
      have "set (buf @ [c]) \<subseteq> set base64_chars" using Cons.prems(2) c by simp
      then show ?thesis
        using cond False b Cons.IH[OF body _ le gt, of "buf @ [c]"] by simp
    qed
  qed
qed

lemma base64_decode_encode_overflow:
  assumes "1610612736 \<le> length bytes"
  shows "base64_decode (base64_encode bytes) = Undefined"
proof -
  define k where "k = (if length bytes mod 3 = 1 then 2 else if length bytes mod 3 = 2 then 1 else (0::nat))"
  obtain body where b: "base64_encode bytes = body @ replicate k (CHR ''='')"
    "set body \<subseteq> set base64_chars"
    using base64_encode_form[of bytes] unfolding k_def by blast
  have "length body = (4 * length bytes + 2) div 3"
    using base64_encode_before_pad[of bytes] takeWhile_body[OF b(2), of k] b(1) by simp
  then have "2147483648 \<le> length body" using assms by simp
  then have "INT_MAX < 0 + int (length body)" by (simp add: INT_MAX_def)
  then have "decode_loop isalnum_C (body @ replicate k (CHR ''='')) 0 [] [] = Undefined"
    by (intro decode_loop_overflow b(2)) (simp_all add: INT_MAX_def)
  then have "decode_loop isalnum_C (base64_encode bytes) 0 [] [] = Undefined"
    by (simp only: b(1))
  moreover have "base64_encode bytes \<noteq> []"
    using assms length_base64_encode[of bytes] by auto
  ultimately show ?thesis
    by (simp add: base64_decode_def base64_decode_in_def clean_base64_encode
        length_base64_encode_mod)
qed

text \<open>
  Claim C2. Decoding what \<open>base64_encode\<close> produced gives the bytes back for every byte
  sequence of fewer than \<open>3 * 2 ^ 29\<close> bytes, the empty one included; on empty input
  \<open>base64_encode\<close> returns the empty string and \<open>base64_decode\<close> the empty byte
  sequence. From \<open>3 * 2 ^ 29\<close> bytes on the encoding has \<open>2 ^ 31\<close> characters before
  its padding, and the decoder's \<^verbatim>\<open>int in_\<close> overflows while reading them: the
  behaviour is undefined.
\<close>

theorem base64_round_trip:
  "(length bytes < 1610612736 \<longrightarrow> base64_decode (base64_encode bytes) = Ok bytes)
   \<and> base64_encode [] = [] \<and> base64_decode [] = Ok []
   \<and> (1610612736 \<le> length bytes \<longrightarrow> base64_decode (base64_encode bytes) = Undefined)"
proof -
  have "base64_decode [] = Ok []"
    by (simp add: base64_decode_def base64_decode_in_def)
  then show ?thesis
    using base64_decode_encode[of bytes] base64_decode_encode_overflow[of bytes]
    by (simp add: base64_encode_Nil)
qed

text \<open>The two hypotheses of the theorem above hold at a sequence of two bytes and at
  \<open>3 * 2 ^ 29\<close> zero bytes.\<close>

theorem base64_round_trip_witness:
  "length [0x41, 0x42 :: byte] < 1610612736
   \<and> base64_decode (base64_encode [0x41, 0x42]) = Ok [0x41, 0x42]
   \<and> 1610612736 \<le> length (replicate 1610612736 (0 :: byte))
   \<and> base64_decode (base64_encode (replicate 1610612736 0)) = Undefined"
proof -
  have 1: "length [0x41, 0x42 :: byte] < 1610612736" by simp
  have 2: "1610612736 \<le> length (replicate 1610612736 (0 :: byte))"
    by (simp only: length_replicate order_refl)
  note a = base64_round_trip[of "[0x41, 0x42]", THEN conjunct1, rule_format, OF 1]
  note b = base64_round_trip[of "replicate 1610612736 0", THEN conjunct2, THEN conjunct2,
      THEN conjunct2, rule_format, OF 2]
  show ?thesis using 1 a 2 b by (intro conjI)
qed

text \<open>
  Claim C3. The output of \<open>base64_encode\<close> ends in exactly two \<^verbatim>\<open>=\<close> when the
  input length is 1 modulo 3, in exactly one when it is 2 modulo 3, in none when it is
  0 modulo 3, and its length is a multiple of 4.
\<close>

theorem base64_padding:
  "count_trailing_pad (base64_encode data)
     = (if length data mod 3 = 1 then 2 else if length data mod 3 = 2 then 1 else 0)
   \<and> length (base64_encode data) mod 4 = 0"
proof -
  obtain body where b: "base64_encode data
      = body @ replicate (if length data mod 3 = 1 then 2 else if length data mod 3 = 2 then 1 else 0) (CHR ''='')"
     "set body \<subseteq> set base64_chars" using base64_encode_form by blast
  have "CHR ''='' \<notin> set body" using b(2) base64_chars_cond by blast
  then show ?thesis
    using count_trailing_pad_append[of body] b(1) length_base64_encode_mod[of data] by simp
qed

lemma alnum_codes: "list_all (\<lambda>m. (char_of (m::nat) :: char) \<in> set base64_chars) ([48..<58] @ [65..<91] @ [97..<123])"
  by code_simp

lemma isalnum_C_in: "isalnum_C c \<Longrightarrow> c \<in> set base64_chars"
proof -
  assume a: "isalnum_C c"
  define n where "n = (of_char c :: nat)"
  have c: "c = char_of n" by (simp add: n_def)
  have "(48 \<le> n \<and> n < 58) \<or> (65 \<le> n \<and> n < 91) \<or> (97 \<le> n \<and> n < 123)"
    using a unfolding isalnum_C_def n_def Let_def by arith
  then have "n \<in> {48..<58} \<union> {65..<91} \<union> {97..<123}"
    by simp
  then have "n \<in> set ([48..<58] @ [65..<91] @ [97..<123])"
    by (simp only: set_append set_upt Un_assoc)
  then show ?thesis
    using alnum_codes unfolding c list_all_iff by blast
qed

lemma plus_slash_in: "CHR ''+'' \<in> set base64_chars" "CHR ''/'' \<in> set base64_chars"
  by (simp_all add: base64_chars_def)

lemma loop_cond_C: "loop_cond isalnum_C c \<longleftrightarrow> c \<in> set base64_chars"
  using base64_chars_cond isalnum_C_in plus_slash_in by (auto simp: loop_cond_def)

lemma clean_encoded_of_C:
  "clean_encoded_of isalnum_C s = filter (\<lambda>c. c \<in> set base64_chars \<or> c = CHR ''='') s"
  unfolding clean_encoded_of_def
  by (rule filter_cong) (use loop_cond_C in \<open>auto simp: loop_cond_def\<close>)

lemma lookup_group_Inl:
  "lookup_group g = Inl e \<Longrightarrow> e = MyErr ''Invalid character in Base64 string.''"
  by (induction g arbitrary: e) (auto split: option.splits sum.splits)

lemma lookup_group_bad_elem:
  "c \<in> set g \<Longrightarrow> c \<notin> set base64_chars \<Longrightarrow> \<exists>e. lookup_group g = Inl e"
  by (induction g) (auto simp: string_find_None split: option.splits sum.splits)

lemma lookup_group_bad:
  "\<exists>c\<in>set g. c \<notin> set base64_chars \<Longrightarrow> \<exists>e. lookup_group g = Inl e"
  using lookup_group_bad_elem by blast

lemma decode_loop_group:
  assumes "loop_cond isalnum c0" "loop_cond isalnum c1" "loop_cond isalnum c2" "loop_cond isalnum c3"
    and "in_pos + 4 \<le> INT_MAX" "0 \<le> in_pos"
  shows "decode_loop isalnum (c0 # c1 # c2 # c3 # rest) in_pos [] ret =
           (case lookup_group [c0, c1, c2, c3] of
              Inl e \<Rightarrow> Throw e
            | Inr a4 \<Rightarrow> decode_loop isalnum rest (in_pos + 4) [] (ret @ char_array_3_of a4))"
proof -
  have "in_pos \<noteq> INT_MAX" "in_pos + 1 \<noteq> INT_MAX" "in_pos + 2 \<noteq> INT_MAX" "in_pos + 3 \<noteq> INT_MAX"
    using assms(5) by simp_all
  then show ?thesis
    using assms(1-4) by (simp add: loop_cond_def add.commute split: sum.splits)
qed

lemma decode_loop_bad_group:
  assumes "length xs mod 4 = 0" "\<forall>c\<in>set xs. loop_cond isalnum c"
    and "\<exists>c\<in>set xs. c \<notin> set base64_chars"
    and "in_pos + int (length xs) \<le> INT_MAX" "0 \<le> in_pos"
  shows "decode_loop isalnum (xs @ rest) in_pos [] ret = Throw (MyErr ''Invalid character in Base64 string.'')"
  using assms
proof (induction xs arbitrary: ret in_pos rule: length_induct)
  case (1 xs)
  from "1.prems"(3) have "xs \<noteq> []" by auto
  with "1.prems"(1) have "4 \<le> length xs"
    by (cases "length xs < 4") (auto simp: not_less)
  then obtain c0 c1 c2 c3 ys where xs: "xs = c0 # c1 # c2 # c3 # ys"
    by (cases xs; cases "tl xs"; cases "tl (tl xs)"; cases "tl (tl (tl xs))") auto
  have conds: "loop_cond isalnum c0" "loop_cond isalnum c1" "loop_cond isalnum c2" "loop_cond isalnum c3"
    using "1.prems"(2) xs by auto
  have i4: "in_pos + 4 \<le> INT_MAX" using "1.prems"(4) xs by simp
  have step: "decode_loop isalnum (xs @ rest) in_pos [] ret =
           (case lookup_group [c0, c1, c2, c3] of
              Inl e \<Rightarrow> Throw e
            | Inr a4 \<Rightarrow> decode_loop isalnum (ys @ rest) (in_pos + 4) [] (ret @ char_array_3_of a4))"
    using decode_loop_group[OF conds i4 "1.prems"(5), of "ys @ rest" ret] by (simp add: xs)
  show ?case
  proof (cases "lookup_group [c0, c1, c2, c3]")
    case (Inl e)
    then show ?thesis using step lookup_group_Inl[OF Inl] by simp
  next
    case (Inr a4)
    then have "\<not> (\<exists>c\<in>set [c0, c1, c2, c3]. c \<notin> set base64_chars)"
      using lookup_group_bad[of "[c0, c1, c2, c3]"] by auto
    then have bad: "\<exists>c\<in>set ys. c \<notin> set base64_chars"
      using "1.prems"(3) xs by auto
    have m: "length ys mod 4 = 0" using "1.prems"(1) xs by simp
    have cs: "\<forall>c\<in>set ys. loop_cond isalnum c" using "1.prems"(2) xs by simp
    have len: "length ys < length xs" using xs by simp
    have b: "in_pos + 4 + int (length ys) \<le> INT_MAX" using "1.prems"(4) xs by simp
    have p: "0 \<le> in_pos + 4" using "1.prems"(5) by simp
    have "decode_loop isalnum (ys @ rest) (in_pos + 4) [] (ret @ char_array_3_of a4)
        = Throw (MyErr ''Invalid character in Base64 string.'')"
      using "1.IH"[rule_format, OF len m cs[rule_format] bad b p] .
    then show ?thesis using step Inr by simp
  qed
qed

lemma decode_loop_pad:
  "decode_loop isalnum (xs @ CHR ''='' # ys) in_pos buf ret = decode_loop isalnum xs in_pos buf ret"
  by (induction isalnum xs in_pos buf ret rule: decode_loop.induct) (auto split: sum.splits)


text \<open>
  Claim C4, as amended. In the "C" locale the decoder first keeps exactly the characters
  of the alphabet and \<^verbatim>\<open>=\<close>. In any locale, an input whose cleaned length is not a
  multiple of 4 fails with the length error; and when the cleaned length is a multiple of
  4, a character that is not in the table and stands in a complete group of four before
  the first \<^verbatim>\<open>=\<close>, at a position below \<open>2 ^ 31 - 4\<close> (so that the group is looked
  up before the \<^verbatim>\<open>int\<close> position counter can overflow), fails with the character
  error. (The trailing, incomplete group is looked up by \<open>lookup_tail\<close>, which does not
  fail.)
\<close>

theorem base64_decode_rejects:
  "clean_encoded_of isalnum_C s = filter (\<lambda>c. c \<in> set base64_chars \<or> c = CHR ''='') s
   \<and> (length (clean_encoded_of isalnum s) mod 4 \<noteq> 0 \<longrightarrow>
        base64_decode_in isalnum s = Throw (MyErr ''Invalid Base64 string length.''))
   \<and> (length (clean_encoded_of isalnum s) mod 4 = 0
        \<and> k < 4 * (length (takeWhile (\<lambda>c. c \<noteq> CHR ''='') (clean_encoded_of isalnum s)) div 4)
        \<and> k < 2147483644
        \<and> takeWhile (\<lambda>c. c \<noteq> CHR ''='') (clean_encoded_of isalnum s) ! k \<notin> set base64_chars \<longrightarrow>
        base64_decode_in isalnum s = Throw (MyErr ''Invalid character in Base64 string.''))"
proof (intro conjI impI)
  show "clean_encoded_of isalnum_C s = filter (\<lambda>c. c \<in> set base64_chars \<or> c = CHR ''='') s"
    by (rule clean_encoded_of_C)
next
  assume "length (clean_encoded_of isalnum s) mod 4 \<noteq> 0"
  moreover from this have "s \<noteq> []" by (auto simp: clean_encoded_of_def)
  ultimately show "base64_decode_in isalnum s = Throw (MyErr ''Invalid Base64 string length.'')"
    by (simp add: base64_decode_in_def)
next
  define clean where "clean = clean_encoded_of isalnum s"
  define pre where "pre = takeWhile (\<lambda>c. c \<noteq> CHR ''='') clean"
  define n where "n = 4 * (k div 4 + 1)"
  define xs where "xs = take n pre"
  define rest where "rest = drop n pre @ dropWhile (\<lambda>c. c \<noteq> CHR ''='') clean"
  assume "length (clean_encoded_of isalnum s) mod 4 = 0
        \<and> k < 4 * (length (takeWhile (\<lambda>c. c \<noteq> CHR ''='') (clean_encoded_of isalnum s)) div 4)
        \<and> k < 2147483644
        \<and> takeWhile (\<lambda>c. c \<noteq> CHR ''='') (clean_encoded_of isalnum s) ! k \<notin> set base64_chars"
  then have len: "length clean mod 4 = 0" and k: "k < 4 * (length pre div 4)"
    and kb: "k < 2147483644" and bad: "pre ! k \<notin> set base64_chars"
    by (simp_all add: clean_def pre_def)
  have "xs @ rest = (take n pre @ drop n pre) @ dropWhile (\<lambda>c. c \<noteq> CHR ''='') clean"
    by (simp only: xs_def rest_def append_assoc)
  then have split: "clean = xs @ rest"
    by (simp only: append_take_drop_id pre_def takeWhile_dropWhile_id)
  have "k div 4 < length pre div 4" using k by simp
  then have "n \<le> 4 * (length pre div 4)" unfolding n_def by simp
  then have "n \<le> length pre" by simp
  then have lx: "length xs = n"
    by (simp add: xs_def)
  then have m: "length xs mod 4 = 0" by (simp add: n_def)
  have kn: "k < n" unfolding n_def by simp
  have "n \<le> 2147483644" using kb unfolding n_def by simp
  then have bound: "0 + int (length xs) \<le> INT_MAX" by (simp add: lx INT_MAX_def)
  have "\<forall>c\<in>set pre. loop_cond isalnum c"
  proof
    fix c assume c: "c \<in> set pre"
    then have "c \<noteq> CHR ''=''" unfolding pre_def by (auto dest: set_takeWhileD)
    moreover from c have "c \<in> set clean" unfolding pre_def by (auto dest: set_takeWhileD)
    ultimately show "loop_cond isalnum c"
      by (auto simp: clean_def clean_encoded_of_def loop_cond_def)
  qed
  moreover have "set xs \<subseteq> set pre" unfolding xs_def by (rule set_take_subset)
  ultimately have conds: "\<forall>c\<in>set xs. loop_cond isalnum c" by blast
  have "xs ! k = pre ! k" using kn by (simp add: xs_def)
  moreover have "k < length xs" using kn lx by simp
  ultimately have "\<exists>c\<in>set xs. c \<notin> set base64_chars"
    using bad by (metis nth_mem)
  then have "decode_loop isalnum (xs @ rest) 0 [] [] = Throw (MyErr ''Invalid character in Base64 string.'')"
    using decode_loop_bad_group[OF m conds _ bound] by blast
  moreover have "s \<noteq> []" using k by (auto simp: pre_def clean_def clean_encoded_of_def)
  ultimately show "base64_decode_in isalnum s = Throw (MyErr ''Invalid character in Base64 string.'')"
    using len split by (simp add: base64_decode_in_def clean_def[symmetric])
qed

text \<open>The hypotheses of the theorem above hold at \<^verbatim>\<open>QUJ\<close> and, in the
  ISO-8859-1 locale, at \<^verbatim>\<open>Q, 0xE9, A, A\<close>.\<close>

theorem base64_decode_rejects_witness:
  "length (clean_encoded_of isalnum_C ''QUJ'') mod 4 \<noteq> 0
   \<and> base64_decode_in isalnum_C ''QUJ'' = Throw (MyErr ''Invalid Base64 string length.'')
   \<and> length (clean_encoded_of isalnum_latin1 [CHR ''Q'', CHR 0xE9, CHR ''A'', CHR ''A'']) mod 4 = 0
   \<and> (1::nat) < 4 * (length (takeWhile (\<lambda>c. c \<noteq> CHR ''='')
                (clean_encoded_of isalnum_latin1 [CHR ''Q'', CHR 0xE9, CHR ''A'', CHR ''A''])) div 4)
   \<and> (1::nat) < 2147483644
   \<and> takeWhile (\<lambda>c. c \<noteq> CHR ''='')
        (clean_encoded_of isalnum_latin1 [CHR ''Q'', CHR 0xE9, CHR ''A'', CHR ''A'']) ! 1 \<notin> set base64_chars
   \<and> base64_decode_in isalnum_latin1 [CHR ''Q'', CHR 0xE9, CHR ''A'', CHR ''A'']
       = Throw (MyErr ''Invalid character in Base64 string.'')"
proof -
  have c1: "clean_encoded_of isalnum_C ''QUJ'' = ''QUJ''"
    by (simp add: clean_encoded_of_def isalnum_C_def)
  have c2: "clean_encoded_of isalnum_latin1 [CHR ''Q'', CHR 0xE9, CHR ''A'', CHR ''A'']
             = [CHR ''Q'', CHR 0xE9, CHR ''A'', CHR ''A'']"
    by (simp add: clean_encoded_of_def isalnum_latin1_def isalnum_C_def)
  have bad: "CHR 0xE9 \<notin> set base64_chars" by (simp add: base64_chars_def)
  show ?thesis
    using base64_decode_rejects[of "''QUJ''" isalnum_C 0, THEN conjunct2, THEN conjunct1]
      base64_decode_rejects[of "[CHR ''Q'', CHR 0xE9, CHR ''A'', CHR ''A'']" isalnum_latin1 1,
        THEN conjunct2, THEN conjunct2]
    by (simp add: c1 c2 bad)
qed

text \<open>
  Claim C4 as stated fails in the trailing group: in the ISO-8859-1 locale the byte
  \<^verbatim>\<open>0xE9\<close> of the input \<^verbatim>\<open>Q, 0xE9, =, =\<close> survives the filter, is stored in
  \<^verbatim>\<open>char_array_4\<close>, is not found by the last table lookup, and the decoder returns the
  byte \<^verbatim>\<open>0x40\<close> instead of failing. In the "C" locale the same lookup is given the
  NUL characters of the zero fill, which the table lacks as well, and \<^verbatim>\<open>QQ==\<close> decodes
  to one byte.
\<close>

theorem base64_decode_tail_counterexample:
  "CHR 0xE9 \<notin> set base64_chars
   \<and> clean_encoded_of isalnum_latin1 [CHR ''Q'', CHR 0xE9, CHR ''='', CHR ''='']
       = [CHR ''Q'', CHR 0xE9, CHR ''='', CHR ''='']
   \<and> decode_loop isalnum_latin1 [CHR ''Q'', CHR 0xE9, CHR ''='', CHR ''=''] 0 [] []
       = Ok ([CHR ''Q'', CHR 0xE9], [])
   \<and> lookup_tail [CHR ''Q'', CHR 0xE9, CHR 0x00, CHR 0x00] = [16, 0, 0, 0]
   \<and> base64_decode_in isalnum_latin1 [CHR ''Q'', CHR 0xE9, CHR ''='', CHR ''=''] = Ok [0x40]
   \<and> CHR 0x00 \<notin> set base64_chars
   \<and> decode_loop isalnum_C ''QQ=='' 0 [] [] = Ok (''QQ'', [])
   \<and> lookup_tail [CHR ''Q'', CHR ''Q'', CHR 0x00, CHR 0x00] = [16, 16, 0, 0]
   \<and> base64_decode ''QQ=='' = Ok [0x41]"
  by (simp add: base64_chars_def clean_encoded_of_def isalnum_latin1_def isalnum_C_def
      lookup_tail_def base64_decode_def base64_decode_in_def decode_tail_def char_array_3_of_def
      INT_MAX_def)

lemma lookup_tail_missing:
  "j < length a4 \<Longrightarrow> a4 ! j \<notin> set base64_chars \<Longrightarrow> lookup_tail a4 ! j = 0"
  by (simp add: lookup_tail_def string_find_None[THEN iffD2])

lemma clean_encoded_of_pad:
  "clean_encoded_of isalnum (xs @ CHR ''='' # ys)
     = clean_encoded_of isalnum xs @ CHR ''='' # clean_encoded_of isalnum ys"
  by (simp add: clean_encoded_of_def)

text \<open>
  Claim C10. The decoder stops at the first \<^verbatim>\<open>=\<close>: \<^verbatim>\<open>QQ==QUFB\<close> decodes without
  error to the single byte before the padding; the loop never reads past a \<^verbatim>\<open>=\<close>,
  so two inputs that agree up to their first \<^verbatim>\<open>=\<close> and both pass the length check
  decode alike; and the lookup of the trailing group maps a character that is missing
  from the table to 0.
\<close>

theorem base64_decode_stops_at_pad:
  "base64_decode ''QQ==QUFB'' = Ok [0x41]
   \<and> decode_loop isalnum (xs @ CHR ''='' # ys) in_pos buf ret = decode_loop isalnum xs in_pos buf ret
   \<and> (length (clean_encoded_of isalnum (xs @ CHR ''='' # ys)) mod 4 = 0
        \<and> length (clean_encoded_of isalnum (xs @ CHR ''='' # zs)) mod 4 = 0 \<longrightarrow>
        base64_decode_in isalnum (xs @ CHR ''='' # ys) = base64_decode_in isalnum (xs @ CHR ''='' # zs))
   \<and> (j < length a4 \<and> a4 ! j \<notin> set base64_chars \<longrightarrow> lookup_tail a4 ! j = 0)"
proof (intro conjI impI)
  show "base64_decode ''QQ==QUFB'' = Ok [0x41]"
    by (simp add: base64_decode_def base64_decode_in_def clean_encoded_of_def isalnum_C_def
        decode_tail_def lookup_tail_def base64_chars_def char_array_3_of_def INT_MAX_def)
next
  show "decode_loop isalnum (xs @ CHR ''='' # ys) in_pos buf ret = decode_loop isalnum xs in_pos buf ret"
    by (rule decode_loop_pad)
next
  assume "length (clean_encoded_of isalnum (xs @ CHR ''='' # ys)) mod 4 = 0
        \<and> length (clean_encoded_of isalnum (xs @ CHR ''='' # zs)) mod 4 = 0"
  then show "base64_decode_in isalnum (xs @ CHR ''='' # ys) = base64_decode_in isalnum (xs @ CHR ''='' # zs)"
    unfolding base64_decode_in_def Let_def
    by (simp only: clean_encoded_of_pad decode_loop_pad) simp
next
  assume "j < length a4 \<and> a4 ! j \<notin> set base64_chars"
  then show "lookup_tail a4 ! j = 0"
    by (simp add: lookup_tail_missing)
qed

text \<open>The hypotheses of the theorem above hold at concrete inputs.\<close>

theorem base64_decode_stops_at_pad_witness:
  "length (clean_encoded_of isalnum_C (''QQ'' @ CHR ''='' # ''=QUFB'')) mod 4 = 0
   \<and> length (clean_encoded_of isalnum_C (''QQ'' @ CHR ''='' # ''='')) mod 4 = 0
   \<and> base64_decode_in isalnum_C (''QQ'' @ CHR ''='' # ''=QUFB'')
       = base64_decode_in isalnum_C (''QQ'' @ CHR ''='' # ''='')
   \<and> (1::nat) < length [CHR ''Q'', CHR 0xE9, CHR 0x00, CHR 0x00]
   \<and> [CHR ''Q'', CHR 0xE9, CHR 0x00, CHR 0x00] ! 1 \<notin> set base64_chars
   \<and> lookup_tail [CHR ''Q'', CHR 0xE9, CHR 0x00, CHR 0x00] ! 1 = 0"
proof -
  have l1: "length (clean_encoded_of isalnum_C (''QQ'' @ CHR ''='' # ''=QUFB'')) mod 4 = 0"
    by (simp add: clean_encoded_of_def isalnum_C_def)
  have l2: "length (clean_encoded_of isalnum_C (''QQ'' @ CHR ''='' # ''='')) mod 4 = 0"
    by (simp add: clean_encoded_of_def isalnum_C_def)
  have bad: "[CHR ''Q'', CHR 0xE9, CHR 0x00, CHR 0x00] ! 1 \<notin> set base64_chars"
    by (simp add: base64_chars_def)
  show ?thesis
    using base64_decode_stops_at_pad[of isalnum_C "''QQ''" "''=QUFB''" 0 "[]" "[]" "''=''"
        1 "[CHR ''Q'', CHR 0xE9, CHR 0x00, CHR 0x00]"] l1 l2 bad
    by simp
qed
section \<open>Outcomes\<close>

lemma bind_Ok_iff: "bind m f = Ok y \<longleftrightarrow> (\<exists>x. m = Ok x \<and> f x = Ok y)"
  by (cases m) auto

section \<open>Properties of the binary codec\<close>

text \<open>
  Claim C9, as amended. When the output target can be opened, \<open>serialize\<close> leaves in it
  exactly the bytes of the value: what it held before is gone, and no other file
  changes. When the input target is absent or cannot be opened, \<open>deserialize\<close> throws
  at once. When the output target cannot be opened, \<open>serialize\<close> returns normally and
  the file system is unchanged.
\<close>

theorem binary_open_behaviour:
  "(snd (open_out_trunc fs file_name) \<longrightarrow>
      (\<exists>fs' r w. serialize data file_name fs = Ok fs'
          \<and> fs' file_name = Present r w (BinarySerializer_process data)
          \<and> (\<forall>other. other \<noteq> file_name \<longrightarrow> fs' other = fs other)))
   \<and> (open_in fs file_name = None \<longrightarrow>
      deserialize t prior file_name fs = Throw (MyErr ''BinarySerializer: Failed to open target file''))
   \<and> (fs file_name = Absent c \<longrightarrow> open_in fs file_name = None)
   \<and> (\<not> snd (open_out_trunc fs file_name) \<longrightarrow> serialize data file_name fs = Ok fs)"
  by (auto simp: serialize_def deserialize_def open_out_trunc_def open_in_def file_write_def
      split: target.splits if_splits)

text \<open>The hypotheses of the theorem above hold on two small file systems.\<close>

theorem binary_open_behaviour_witness:
  "snd (open_out_trunc (\<lambda>n. if n = ''test.data'' then Present True True [1, 2, 3] else Absent False) ''test.data'')
   \<and> (\<exists>fs' r w. serialize (VArith (Arith False 1) 5) ''test.data''
            (\<lambda>n. if n = ''test.data'' then Present True True [1, 2, 3] else Absent False) = Ok fs'
          \<and> fs' ''test.data'' = Present r w [5])
   \<and> open_in (\<lambda>n. Absent False) ''gone'' = None
   \<and> deserialize TString (Some (VString [])) ''gone'' (\<lambda>n. Absent False)
        = Throw (MyErr ''BinarySerializer: Failed to open target file'')
   \<and> \<not> snd (open_out_trunc (\<lambda>n. Absent False) ''gone'')
   \<and> serialize (VString ''x'') ''gone'' (\<lambda>n. Absent False) = Ok (\<lambda>n. Absent False)"
proof -
  let ?fs = "\<lambda>n. if n = ''test.data'' then Present True True [1, 2, 3] else Absent False"
  have 1: "snd (open_out_trunc ?fs ''test.data'')"
    by (simp add: open_out_trunc_def)
  have 2: "open_in (\<lambda>n. Absent False) ''gone'' = None"
    by (simp add: open_in_def)
  have 3: "\<not> snd (open_out_trunc (\<lambda>n. Absent False) ''gone'')"
    by (simp add: open_out_trunc_def)
  have b: "BinarySerializer_process (VArith (Arith False 1) 5) = [5]"
    by (simp add: arith_bytes_def)
  from binary_open_behaviour[where fs="?fs" and file_name="''test.data''" and data="VArith (Arith False 1) 5",
      THEN conjunct1, rule_format, OF 1]
  have 4: "\<exists>fs' r w. serialize (VArith (Arith False 1) 5) ''test.data'' ?fs = Ok fs'
          \<and> fs' ''test.data'' = Present r w [5]"
    unfolding b by blast
  note 5 = binary_open_behaviour[where fs="\<lambda>n. Absent False" and file_name="''gone''"
      and t=TString and prior="Some (VString [])",
      THEN conjunct2, THEN conjunct1, rule_format, OF 2]
  note 6 = binary_open_behaviour[where fs="\<lambda>n. Absent False" and file_name="''gone''"
      and data="VString ''x''",
      THEN conjunct2, THEN conjunct2, THEN conjunct2, rule_format, OF 3]
  show ?thesis using 1 2 3 4 5 6 by (intro conjI)
qed

text \<open>
  Claim C9 as stated fails for writing: on a target that cannot be created, or that is
  read-only, the open fails and \<open>serialize\<close> still returns normally; no error
  reaches the caller.
\<close>

theorem binary_open_write_counterexample:
  "open_out_trunc (\<lambda>n. Absent False) ''gone'' = ((\<lambda>n. Absent False), False)
   \<and> serialize (VString ''x'') ''gone'' (\<lambda>n. Absent False) = Ok (\<lambda>n. Absent False)
   \<and> serialize (VString ''x'') ''ro'' (\<lambda>n. Present True False [1]) = Ok (\<lambda>n. Present True False [1])"
  by (simp add: serialize_def open_out_trunc_def file_write_def)

section \<open>Properties of the scalar text form\<close>

subsection \<open>Integers as decimal text\<close>










subsection \<open>The nearest \<^verbatim>\<open>double\<close> of an integer\<close>




















subsection \<open>The decimal form of the stored text\<close>












subsection \<open>The scalar through the document\<close>
















section \<open>Properties of the XML reader\<close>

lemma first_named_filter:
  "first_named name es = Some (e, sibs) \<Longrightarrow>
     filter (\<lambda>x. Name x = name) es = e # filter (\<lambda>x. Name x = name) sibs"
  by (induction es) (auto split: if_splits)

lemma first_named_None: "first_named name es = None \<longleftrightarrow> filter (\<lambda>x. Name x = name) es = []"
  by (induction es) auto

lemma fields_left_ctor:
  assumes "XMLDeserializer_ctor file = Ok d"
  shows "\<exists>r sibs. first_named ''serialization'' file = Some (r, sibs)
           \<and> fields_left d = length (filter (\<lambda>e. Name e = ''field'') (Children r))"
proof -
  from assms obtain r sibs where r: "first_named ''serialization'' file = Some (r, sibs)"
    by (cases "first_named ''serialization'' file") (auto simp: XMLDeserializer_ctor_def)
  with assms obtain f fs where f: "first_named ''field'' (Children r) = Some (f, fs)"
    and d: "d = \<lparr>root_ele = Some (r, sibs), cur_ele = Some (f, fs)\<rparr>"
    by (cases "first_named ''field'' (Children r)") (auto simp: XMLDeserializer_ctor_def)
  show ?thesis
    using r first_named_filter[OF f] by (simp add: d fields_left_def)
qed

lemma fields_left_process:
  assumes "XMLDeserializer_process t data d = Ok (v, d')"
  shows "fields_left d = Suc (fields_left d')"
proof -
  from assms obtain e sibs where c: "cur_ele d = Some (e, sibs)"
    by (cases "cur_ele d") (auto simp: XMLDeserializer_process_def)
  from assms c have d': "d' = d\<lparr>cur_ele := first_named ''field'' sibs\<rparr>"
    by (auto simp: XMLDeserializer_process_def NextSiblingElement_def bind_Ok_iff)
  show ?thesis
  proof (cases "first_named ''field'' sibs")
    case None
    moreover from None have "filter (\<lambda>x. Name x = ''field'') sibs = []"
      by (simp add: first_named_None)
    ultimately show ?thesis using c d' by (simp add: fields_left_def)
  next
    case (Some p)
    then obtain f fs where "first_named ''field'' sibs = Some (f, fs)" by (cases p) auto
    then show ?thesis using c d' first_named_filter[of "''field''" sibs f fs]
      by (simp add: fields_left_def)
  qed
qed

lemma fields_left_SERIALIZE:
  "XMLDeserializer_SERIALIZE vars d = Ok (vs, d') \<Longrightarrow> fields_left d = length vars + fields_left d'"
proof (induction vars arbitrary: d vs)
  case Nil
  then show ?case by simp
next
  case (Cons var vars)
  from Cons.prems obtain v d1 vs1 where
    p: "XMLDeserializer_process (fst var) (snd var) d = Ok (v, d1)"
    and s: "XMLDeserializer_SERIALIZE vars d1 = Ok (vs1, d')"
    by (auto simp: bind_Ok_iff)
  show ?case using fields_left_process[OF p] Cons.IH[OF s] by simp
qed

text \<open>
  Claim C5. A document without a \<^verbatim>\<open><serialization>\<close> root, or whose root has no
  \<^verbatim>\<open><field>\<close> child, makes the constructor throw; and after as many successful
  \<^verbatim>\<open>process\<close> calls as the root has \<^verbatim>\<open><field>\<close> children, one more call
  throws \<^verbatim>\<open>Field not found.\<close> instead of returning a value.
\<close>

theorem xml_reader_structural_errors:
  "(first_named ''serialization'' file = None \<longrightarrow>
      XMLDeserializer_ctor file = Throw (MyErr ''Failed to found root element <serialization>.''))
   \<and> (first_named ''serialization'' file = Some (r, sibs) \<and> first_named ''field'' (Children r) = None \<longrightarrow>
      XMLDeserializer_ctor file = Throw (MyErr ''Element <field> not found in <serialization>.''))
   \<and> (XMLDeserializer_ctor file = Ok d
       \<and> first_named ''serialization'' file = Some (r, sibs)
       \<and> length vars = length (filter (\<lambda>e. Name e = ''field'') (Children r))
       \<and> XMLDeserializer_SERIALIZE vars d = Ok (vs, d') \<longrightarrow>
      XMLDeserializer_process t data d' = Throw (MyErr ''Field not found.''))"
proof (intro conjI impI)
  assume "first_named ''serialization'' file = None"
  then show "XMLDeserializer_ctor file = Throw (MyErr ''Failed to found root element <serialization>.'')"
    by (simp add: XMLDeserializer_ctor_def)
next
  assume "first_named ''serialization'' file = Some (r, sibs) \<and> first_named ''field'' (Children r) = None"
  then show "XMLDeserializer_ctor file = Throw (MyErr ''Element <field> not found in <serialization>.'')"
    by (simp add: XMLDeserializer_ctor_def)
next
  assume a: "XMLDeserializer_ctor file = Ok d
       \<and> first_named ''serialization'' file = Some (r, sibs)
       \<and> length vars = length (filter (\<lambda>e. Name e = ''field'') (Children r))
       \<and> XMLDeserializer_SERIALIZE vars d = Ok (vs, d')"
  then have "fields_left d = length vars"
    using fields_left_ctor by fastforce
  moreover have "fields_left d = length vars + fields_left d'"
    using a fields_left_SERIALIZE by blast
  ultimately have "fields_left d' = 0" by simp
  then have "cur_ele d' = None"
    by (cases "cur_ele d'") (simp_all add: fields_left_def)
  then show "XMLDeserializer_process t data d' = Throw (MyErr ''Field not found.'')"
    by (simp add: XMLDeserializer_process_def)
qed

text \<open>The hypotheses of the theorem above hold on three small documents.\<close>

theorem xml_reader_structural_errors_witness:
  "first_named ''serialization'' [NewElement ''other''] = None
   \<and> XMLDeserializer_ctor [NewElement ''other'']
       = Throw (MyErr ''Failed to found root element <serialization>.'')
   \<and> first_named ''serialization'' [XMLSerializer_root] = Some (XMLSerializer_root, [])
   \<and> first_named ''field'' (Children XMLSerializer_root) = None
   \<and> XMLDeserializer_ctor [XMLSerializer_root]
       = Throw (MyErr ''Element <field> not found in <serialization>.'')
   \<and> (let file = [XMLSerializer_process (VString ''x'') XMLSerializer_root];
           d = \<lparr>root_ele = Some (hd file, []), cur_ele = Some (hd (Children (hd file)), [])\<rparr>;
           d' = d\<lparr>cur_ele := None\<rparr>
       in XMLDeserializer_ctor file = Ok d
          \<and> first_named ''serialization'' file = Some (hd file, [])
          \<and> length [(TString, VString [])]
              = length (filter (\<lambda>e. Name e = ''field'') (Children (hd file)))
          \<and> XMLDeserializer_SERIALIZE [(TString, VString [])] d = Ok ([VString ''x''], d')
          \<and> XMLDeserializer_process TString (VString []) d' = Throw (MyErr ''Field not found.''))"
proof -
  let ?file = "[XMLSerializer_process (VString ''x'') XMLSerializer_root]"
  let ?d = "\<lparr>root_ele = Some (hd ?file, []), cur_ele = Some (hd (Children (hd ?file)), [])\<rparr>"
  let ?d' = "?d\<lparr>cur_ele := None\<rparr>"
  have 1: "first_named ''serialization'' [NewElement ''other''] = None"
    by (simp add: NewElement_def)
  have 2: "first_named ''serialization'' [XMLSerializer_root] = Some (XMLSerializer_root, [])"
    "first_named ''field'' (Children XMLSerializer_root) = None"
    by (simp_all add: XMLSerializer_root_def NewElement_def)
  have 3: "XMLDeserializer_ctor ?file = Ok ?d"
    "first_named ''serialization'' ?file = Some (hd ?file, [])"
    "length [(TString, VString [])] = length (filter (\<lambda>e. Name e = ''field'') (Children (hd ?file)))"
    by (simp_all add: XMLDeserializer_ctor_def XMLSerializer_process_def XMLSerializer_root_def
        NewElement_def InsertEndChild_def SetAttribute_def)
  have 4: "XMLDeserializer_SERIALIZE [(TString, VString [])] ?d = Ok ([VString ''x''], ?d')"
    by (simp add: XMLDeserializer_process_def XMLSerializer_process_def XMLSerializer_root_def
        NewElement_def InsertEndChild_def SetAttribute_def Attribute_def NextSiblingElement_def c_str_def)
  note t1 = xml_reader_structural_errors[of "[NewElement ''other'']", THEN conjunct1, rule_format, OF 1]
  note t2 = xml_reader_structural_errors[of "[XMLSerializer_root]" XMLSerializer_root "[]",
      THEN conjunct2, THEN conjunct1, rule_format, OF conjI[OF 2]]
  note t3 = xml_reader_structural_errors[of _ _ _ _ _ _ _ TString "VString []",
      THEN conjunct2, THEN conjunct2, rule_format, OF conjI[OF 3(1) conjI[OF 3(2) conjI[OF 3(3) 4]]]]
  show ?thesis
    unfolding Let_def using 1 2 3 4 t1 t2 t3 by (intro conjI)
qed

text \<open>
  Claim C6 does not hold of the source. The nested readers never test the pointer that
  \<^verbatim>\<open>FirstChildElement\<close> or \<^verbatim>\<open>Attribute\<close> returns: when the expected child element
  or the \<^verbatim>\<open>val\<close> attribute is absent they go on through a null pointer, which is
  undefined behaviour and not a thrown \<open>MyErr\<close>.
\<close>

theorem xml_shape_mismatch_undefined:
  "(first_named ''pair'' (Children e) = None \<longrightarrow>
      XMLDeserializer_process_at (TPair t1 t2) data (Some (e, sibs)) = Undefined)
   \<and> (first_named ''vector'' (Children e) = None \<longrightarrow>
      XMLDeserializer_process_at (TVector t) data (Some (e, sibs)) = Undefined)
   \<and> (first_named ''list'' (Children e) = None \<longrightarrow>
      XMLDeserializer_process_at (TList t) data (Some (e, sibs)) = Undefined)
   \<and> (first_named ''set'' (Children e) = None \<longrightarrow>
      XMLDeserializer_process_at (TSet t) data (Some (e, sibs)) = Undefined)
   \<and> (first_named ''map'' (Children e) = None \<longrightarrow>
      XMLDeserializer_process_at (TMap t1 t2) data (Some (e, sibs)) = Undefined)
   \<and> (first_named ''vector'' (Children e) = Some (c, cs) \<and> first_named ''length'' (Children c) = None \<longrightarrow>
      XMLDeserializer_process_at (TVector t) data (Some (e, sibs)) = Undefined)
   \<and> (map_of (Attributes e) ''val'' = None \<longrightarrow>
      XMLDeserializer_process_at (TArith a) data (Some (e, sibs)) = Undefined
      \<and> XMLDeserializer_process_at TString data (Some (e, sibs)) = Undefined)"
  by (simp add: FirstChildElement_def process_arith_def Attribute_def)

text \<open>A writer-made document with one scalar field read as a pair and as a vector, and
  a pair field read as a scalar.\<close>

theorem xml_shape_mismatch_undefined_witness:
  "(let file = [XMLSerializer_process (VArith (Arith True 4) 5) XMLSerializer_root];
        field = hd (Children (hd file))
    in XMLDeserializer_ctor file = Ok \<lparr>root_ele = Some (hd file, []), cur_ele = Some (field, [])\<rparr>
       \<and> first_named ''pair'' (Children field) = None
       \<and> XMLDeserializer_process (TPair (TArith (Arith True 4)) (TArith (Arith True 4)))
            (VPair (VArith (Arith True 4) 0) (VArith (Arith True 4) 0))
            \<lparr>root_ele = Some (hd file, []), cur_ele = Some (field, [])\<rparr> = Undefined
       \<and> first_named ''vector'' (Children field) = None
       \<and> XMLDeserializer_process_at (TVector TString) (VVector []) (Some (field, [])) = Undefined)
   \<and> (let field = XMLSerializer_process_at (VPair (VString ''a'') (VString ''b'')) (NewElement ''field'')
       in map_of (Attributes field) ''val'' = None
          \<and> XMLDeserializer_process_at (TArith (Arith True 4)) (VArith (Arith True 4) 0)
               (Some (field, [])) = Undefined)"
proof -
  let ?file = "[XMLSerializer_process (VArith (Arith True 4) 5) XMLSerializer_root]"
  let ?field = "hd (Children (hd ?file))"
  let ?i32 = "Arith True 4"
  let ?f2 = "XMLSerializer_process_at (VPair (VString ''a'') (VString ''b'')) (NewElement ''field'')"
  have 1: "XMLDeserializer_ctor ?file = Ok \<lparr>root_ele = Some (hd ?file, []), cur_ele = Some (?field, [])\<rparr>"
    by (simp add: XMLDeserializer_ctor_def XMLSerializer_process_def XMLSerializer_root_def
        NewElement_def InsertEndChild_def SetAttribute_def)
  have 2: "first_named ''pair'' (Children ?field) = None" "first_named ''vector'' (Children ?field) = None"
    by (simp_all add: XMLSerializer_process_def XMLSerializer_root_def
        NewElement_def InsertEndChild_def SetAttribute_def)
  have 3: "map_of (Attributes ?f2) ''val'' = None"
    by (simp add: NewElement_def InsertEndChild_def)
  note p = xml_shape_mismatch_undefined[where e="?field" and ?t1.0="TArith ?i32" and ?t2.0="TArith ?i32"
      and data="VPair (VArith ?i32 0) (VArith ?i32 0)" and sibs="[]",
      THEN conjunct1, rule_format, OF 2(1)]
  note v = xml_shape_mismatch_undefined[where e="?field" and sibs="[]" and t=TString and data="VVector []",
      THEN conjunct2, THEN conjunct1, rule_format, OF 2(2)]
  note s = xml_shape_mismatch_undefined[where e="?f2" and data="VArith ?i32 0" and sibs="[]" and a="?i32",
      THEN conjunct2, THEN conjunct2, THEN conjunct2, THEN conjunct2, THEN conjunct2, THEN conjunct2,
      rule_format, OF 3, THEN conjunct1]
  have 4: "XMLDeserializer_process (TPair (TArith ?i32) (TArith ?i32))
            (VPair (VArith ?i32 0) (VArith ?i32 0))
            \<lparr>root_ele = Some (hd ?file, []), cur_ele = Some (?field, [])\<rparr> = Undefined"
    unfolding XMLDeserializer_process_def using p by simp
  show ?thesis
    unfolding Let_def using 1 2 3 4 v s by (intro conjI)
qed

section \<open>Element counts of the containers\<close>

lemma length_arith_bytes: "length (arith_bytes a v) = sizeof a"
  by (simp add: arith_bytes_def)

lemma process_each_length:
  "process_each f ds inp = Ok (vs, rest) \<Longrightarrow> length vs = length ds"
  by (induction ds arbitrary: inp vs rest) (auto simp: bind_Ok_iff)

lemma length_set_insert: "length (set_insert x xs) \<le> Suc (length xs)"
  by (induction xs) auto

lemma length_map_assign: "length (map_assign k v es) \<le> Suc (length es)"
  by (induction es) auto

lemma length_insert_value: "insert_value x xs = Ok ys \<Longrightarrow> length ys \<le> Suc (length xs)"
  using length_set_insert[of x xs] by (auto simp: insert_value_def split: if_splits)

lemma length_assign_value: "assign_value kv es = Ok ys \<Longrightarrow> length ys \<le> Suc (length es)"
  using length_map_assign[of "fst kv" "snd kv" es] by (auto simp: assign_value_def split: if_splits)

lemma insert_loop_length:
  "insert_loop f n data inp = Ok (vs, rest) \<Longrightarrow> length vs \<le> length data + n"
proof (induction n arbitrary: data inp)
  case 0
  then show ?case by simp
next
  case (Suc n)
  then obtain v r data' where "f inp = Ok (v, r)" and i: "insert_value v data = Ok data'"
    and l: "insert_loop f n data' r = Ok (vs, rest)"
    by (auto simp: bind_Ok_iff)
  then show ?case using Suc.IH[OF l] length_insert_value[OF i] by simp
qed

lemma assign_loop_length:
  "assign_loop f g n data inp = Ok (vs, rest) \<Longrightarrow> length vs \<le> length data + n"
proof (induction n arbitrary: data inp)
  case 0
  then show ?case by simp
next
  case (Suc n)
  then obtain k r v r' data' where "f inp = Ok (k, r)" "g r = Ok (v, r')"
    and a: "assign_value (k, v) data = Ok data'"
    and l: "assign_loop f g n data' r' = Ok (vs, rest)"
    by (auto simp: bind_Ok_iff)
  then show ?case using Suc.IH[OF l] length_assign_value[OF a] by simp
qed

lemma bytes_unsigned_nonneg: "0 \<le> bytes_unsigned bs"
  unfolding bytes_unsigned_def by (induction bs) simp_all

lemma read_arith_size_t_nonneg:
  "read_arith size_t data inp = Ok (len, rest) \<Longrightarrow> 0 \<le> len"
  by (auto simp: read_arith_def bytes_arith_def size_t_def bytes_unsigned_nonneg
      split: prod.splits option.splits if_splits)

lemma BinaryDeserializer_process_prior:
  "container_ty t \<Longrightarrow>
     BinaryDeserializer_process t data inp = BinaryDeserializer_process t data' inp"
  by (cases t) (simp_all add: clear_def)

lemma items_at_first_named:
  "items_at (first_named ''item'' es) = length (filter (\<lambda>e. Name e = ''item'') es)"
  by (induction es) (auto simp: items_at_def)

lemma items_at_simps:
  "items_at None = 0"
  "items_at (Some (e, sibs)) = Suc (length (filter (\<lambda>e. Name e = ''item'') sibs))"
  by (simp_all add: items_at_def)

lemma item_loop_push_back_length:
  "item_loop f push_back p data = Ok r \<Longrightarrow> length r = length data + items_at p"
proof (induction f "push_back :: 'a \<Rightarrow> 'a list \<Rightarrow> 'a list outcome" p data rule: item_loop.induct)
  case (1 f data)
  then show ?case by (simp add: items_at_simps)
next
  case (2 f e sibs data)
  from "2.prems" obtain v where v: "f (Some (e, sibs)) = Ok v"
    and l: "item_loop f push_back (first_named ''item'' sibs) (data @ [v]) = Ok r"
    by (auto simp: bind_Ok_iff push_back_def)
  have "length r = length (data @ [v]) + items_at (first_named ''item'' sibs)"
    using "2.hyps"[OF l] .
  then show ?case by (simp add: items_at_first_named items_at_simps)
qed

lemma item_loop_le_length:
  "item_loop f ins p data = Ok r \<Longrightarrow> (\<And>v xs ys. ins v xs = Ok ys \<Longrightarrow> length ys \<le> Suc (length xs))
     \<Longrightarrow> length r \<le> length data + items_at p"
proof (induction f ins p data rule: item_loop.induct)
  case (1 f ins data)
  then show ?case by (simp add: items_at_simps)
next
  case (2 f ins e sibs data)
  from "2.prems"(1) obtain v data' where v: "f (Some (e, sibs)) = Ok v"
    and i: "ins v data = Ok data'"
    and l: "item_loop f ins (first_named ''item'' sibs) data' = Ok r"
    by (auto simp: bind_Ok_iff)
  have "length r \<le> length data' + items_at (first_named ''item'' sibs)"
    using "2.IH"[OF l "2.prems"(2)] .
  moreover have "length data' \<le> Suc (length data)" using i by (rule "2.prems"(2))
  ultimately have "length r \<le> Suc (length data) + items_at (first_named ''item'' sibs)"
    by linarith
  then show ?case by (simp add: items_at_first_named items_at_simps)
qed

lemma XMLDeserializer_process_at_prior:
  "XMLDeserializer_process_at t data pos = XMLDeserializer_process_at t data' pos"
proof (induction t arbitrary: data data' pos)
  case (TPair t1 t2)
  have "XMLDeserializer_process_at t1 (first data) p = XMLDeserializer_process_at t1 (first data') p" for p
    by (rule TPair.IH)
  moreover have "XMLDeserializer_process_at t2 (second data) p = XMLDeserializer_process_at t2 (second data') p" for p
    by (rule TPair.IH)
  ultimately show ?case by simp
qed (simp_all add: clear_def)

lemma Name_XMLSerializer_process_at: "Name (XMLSerializer_process_at x e) = Name e"
  by (cases x) (simp_all add: SetAttribute_def InsertEndChild_def)

lemma length_resize_clear: "length (resize t n (clear xs)) = n"
  by (simp add: resize_def clear_def)

lemma binary_container_count:
  assumes "container_ty t" "BinaryDeserializer_process t data inp = Ok (v, rest)"
  shows "\<exists>len rest0. read_arith size_t None inp = Ok (len, rest0) \<and> int (count v) \<le> len
           \<and> (sequence_ty t \<longrightarrow> int (count v) = len)"
proof (cases t)
  case (TVector t')
  with assms(2) obtain len rest0 vs where r: "read_arith size_t None inp = Ok (len, rest0)"
    and e: "process_each (BinaryDeserializer_process t') (resize t' (nat len) (clear (held elems data))) rest0 = Ok (vs, rest)"
    and v: "v = VVector vs"
    by (auto simp: bind_Ok_iff)
  have "length vs = nat len" using process_each_length[OF e] by (simp add: length_resize_clear)
  then show ?thesis using r v read_arith_size_t_nonneg[OF r] by simp
next
  case (TList t')
  with assms(2) obtain len rest0 vs where r: "read_arith size_t None inp = Ok (len, rest0)"
    and e: "process_each (BinaryDeserializer_process t') (resize t' (nat len) (clear (held elems data))) rest0 = Ok (vs, rest)"
    and v: "v = VList vs"
    by (auto simp: bind_Ok_iff)
  have "length vs = nat len" using process_each_length[OF e] by (simp add: length_resize_clear)
  then show ?thesis using r v read_arith_size_t_nonneg[OF r] by simp
next
  case (TSet t')
  with assms(2) obtain len rest0 vs where r: "read_arith size_t None inp = Ok (len, rest0)"
    and e: "insert_loop (BinaryDeserializer_process t' (local t')) (nat len) (clear (held elems data)) rest0 = Ok (vs, rest)"
    and v: "v = VSet vs"
    by (auto simp: bind_Ok_iff)
  have "length vs \<le> nat len" using insert_loop_length[OF e] by (simp add: clear_def)
  then show ?thesis using r v read_arith_size_t_nonneg[OF r] TSet by simp
next
  case (TMap t1 t2)
  with assms(2) obtain len rest0 vs where r: "read_arith size_t None inp = Ok (len, rest0)"
    and e: "assign_loop (BinaryDeserializer_process t1 (local t1))
               (BinaryDeserializer_process t2 (local t2)) (nat len) (clear (held entries data)) rest0 = Ok (vs, rest)"
    and v: "v = VMap vs"
    by (auto simp: bind_Ok_iff)
  have "length vs \<le> nat len" using assign_loop_length[OF e] by (simp add: clear_def)
  then show ?thesis using r v read_arith_size_t_nonneg[OF r] TMap by simp
qed (use assms(1) in simp_all)

lemma FirstChildElement_Ok:
  "FirstChildElement name p = Ok q \<longleftrightarrow> (\<exists>e sibs. p = Some (e, sibs) \<and> q = first_named name (Children e))"
  by (cases p) (auto simp: FirstChildElement_def)

lemma xml_container_count:
  assumes "container_ty t" "XMLDeserializer_process_at t data (Some (e, sibs)) = Ok v"
  shows "\<exists>c cs. first_named (container_tag t) (Children e) = Some (c, cs)
           \<and> count v \<le> length (filter (\<lambda>x. Name x = ''item'') (Children c))
           \<and> (sequence_ty t \<longrightarrow> count v = length (filter (\<lambda>x. Name x = ''item'') (Children c)))"
proof (cases t)
  case (TVector t')
  with assms(2) obtain c cs r where c: "first_named ''vector'' (Children e) = Some (c, cs)"
    and l: "item_loop (XMLDeserializer_process_at t' (default_val t')) push_back
              (first_named ''item'' (Children c)) (clear (elems data)) = Ok r"
    and v: "v = VVector r"
    by (auto simp: bind_Ok_iff FirstChildElement_Ok)
  show ?thesis
    using item_loop_push_back_length[OF l] c v TVector
    by (simp add: clear_def items_at_first_named)
next
  case (TList t')
  with assms(2) obtain c cs r where c: "first_named ''list'' (Children e) = Some (c, cs)"
    and l: "item_loop (XMLDeserializer_process_at t' (default_val t')) push_back
              (first_named ''item'' (Children c)) (clear (elems data)) = Ok r"
    and v: "v = VList r"
    by (auto simp: bind_Ok_iff FirstChildElement_Ok)
  show ?thesis
    using item_loop_push_back_length[OF l] c v TList
    by (simp add: clear_def items_at_first_named)
next
  case (TSet t')
  with assms(2) obtain c cs r where c: "first_named ''set'' (Children e) = Some (c, cs)"
    and l: "item_loop (XMLDeserializer_process_at t' (default_val t')) insert_value
              (first_named ''item'' (Children c)) (clear (elems data)) = Ok r"
    and v: "v = VSet r"
    by (auto simp: bind_Ok_iff FirstChildElement_Ok)
  have "length r \<le> length (clear (elems data)) + items_at (first_named ''item'' (Children c))"
    by (rule item_loop_le_length[OF l]) (rule length_insert_value)
  then show ?thesis
    using c v TSet by (simp add: clear_def items_at_first_named)
next
  case (TMap t1 t2)
  with assms(2) obtain c cs r where c: "first_named ''map'' (Children e) = Some (c, cs)"
    and l: "item_loop
              (\<lambda>item.
                 bind (FirstChildElement ''key'' item) (\<lambda>key_ele.
                   bind (XMLDeserializer_process_at t1 (default_val t1) key_ele) (\<lambda>k.
                     bind (FirstChildElement ''value'' item) (\<lambda>value_ele.
                       bind (XMLDeserializer_process_at t2 (default_val t2) value_ele) (\<lambda>v.
                         Ok (k, v))))))
              assign_value
              (first_named ''item'' (Children c)) (clear (entries data)) = Ok r"
    and v: "v = VMap r"
    by (auto simp: bind_Ok_iff FirstChildElement_Ok)
  have "length r \<le> length (clear (entries data)) + items_at (first_named ''item'' (Children c))"
    by (rule item_loop_le_length[OF l]) (rule length_assign_value)
  then show ?thesis
    using c v TMap by (simp add: clear_def items_at_first_named)
qed (use assms(1) in simp_all)

text \<open>
  Claim C7, as amended. Both writers put the element count before the elements of every
  container. Whenever the binary reader returns a container, on a complete file or on
  one that ends early, it has read the count in full and leaves a vector or a list with
  exactly that many elements, a set or a map with at most that many (equal elements or
  keys collapse). The XML reader reads the count and does not use it: it leaves a
  vector or a list with exactly as many elements as the container element has
  \<^verbatim>\<open><item>\<close> children, a set or a map with at most that many. No container
  reader's result depends on what the destination held before.
\<close>

theorem container_count_prefix:
  "(is_container c \<longrightarrow>
      take 8 (BinarySerializer_process c) = arith_bytes size_t (int (count c)))
   \<and> (is_container c \<longrightarrow>
      (\<exists>tag items. Children (XMLSerializer_process_at c (NewElement name))
          = [XMLElement tag [] (XMLElement ''length'' [(''val'', decimal (int (count c)))] [] # items)]
        \<and> length items = count c \<and> list_all (\<lambda>e. Name e = ''item'') items))
   \<and> (container_ty t \<and> BinaryDeserializer_process t data inp = Ok (v, rest) \<longrightarrow>
      (\<exists>len rest0. read_arith size_t None inp = Ok (len, rest0) \<and> int (count v) \<le> len
          \<and> (sequence_ty t \<longrightarrow> int (count v) = len)))
   \<and> (container_ty t \<and> XMLDeserializer_process_at t old (Some (e, sibs)) = Ok w \<longrightarrow>
      (\<exists>c cs. first_named (container_tag t) (Children e) = Some (c, cs)
          \<and> count w \<le> length (filter (\<lambda>x. Name x = ''item'') (Children c))
          \<and> (sequence_ty t \<longrightarrow> count w = length (filter (\<lambda>x. Name x = ''item'') (Children c)))))
   \<and> (container_ty t \<longrightarrow>
        BinaryDeserializer_process t data inp = BinaryDeserializer_process t data' inp
        \<and> XMLDeserializer_process_at t old pos = XMLDeserializer_process_at t old' pos)"
proof (intro conjI impI)
  assume "is_container c"
  then show "take 8 (BinarySerializer_process c) = arith_bytes size_t (int (count c))"
    by (cases c) (simp_all add: length_arith_bytes size_t_def)
next
  assume "is_container c"
  then show "\<exists>tag items. Children (XMLSerializer_process_at c (NewElement name))
          = [XMLElement tag [] (XMLElement ''length'' [(''val'', decimal (int (count c)))] [] # items)]
        \<and> length items = count c \<and> list_all (\<lambda>e. Name e = ''item'') items"
    by (cases c)
      (simp_all add: InsertEndChild_def NewElement_def SetAttribute_def list_all_iff
        Name_XMLSerializer_process_at size_t_def)
next
  assume "container_ty t \<and> BinaryDeserializer_process t data inp = Ok (v, rest)"
  then show "\<exists>len rest0. read_arith size_t None inp = Ok (len, rest0) \<and> int (count v) \<le> len
          \<and> (sequence_ty t \<longrightarrow> int (count v) = len)"
    using binary_container_count by blast
next
  assume "container_ty t \<and> XMLDeserializer_process_at t old (Some (e, sibs)) = Ok w"
  then show "\<exists>c cs. first_named (container_tag t) (Children e) = Some (c, cs)
          \<and> count w \<le> length (filter (\<lambda>x. Name x = ''item'') (Children c))
          \<and> (sequence_ty t \<longrightarrow> count w = length (filter (\<lambda>x. Name x = ''item'') (Children c)))"
    using xml_container_count by blast
next
  assume "container_ty t"
  then show "BinaryDeserializer_process t data inp = BinaryDeserializer_process t data' inp"
    by (rule BinaryDeserializer_process_prior)
next
  show "XMLDeserializer_process_at t old pos = XMLDeserializer_process_at t old' pos"
    by (rule XMLDeserializer_process_at_prior)
qed

lemma set_read_dup:
  "BinaryDeserializer_process (TSet (TArith (Arith False 1))) (Some (VSet [])) [2,0,0,0,0,0,0,0,5,5]
     = Ok (VSet [VArith (Arith False 1) 5], [])"
  by code_simp

lemma set_read_dup_len: "read_arith size_t None [2,0,0,0,0,0,0,0,5,5] = Ok (2, [5,5])"
  by code_simp

lemma vector_read_short: "XMLDeserializer_process_at (TVector (TArith (Arith True 4))) (VVector [])
        (Some (XMLElement ''field'' []
                 [XMLElement ''vector'' []
                    [XMLElement ''length'' [(''val'', ''3'')] [],
                     XMLElement ''item'' [(''val'', ''1'')] []]], []))
       = Ok (VVector [VArith (Arith True 4) 1])"
  by code_simp

lemma vector_read_short_len:
  "process_arith size_t (Some (XMLElement ''length'' [(''val'', ''3'')] [], [])) = Ok 3"
  by code_simp

lemma vector_binary_example:
  "BinaryDeserializer_process (TVector TString) (Some (VVector [VString ''zz'', VString ''y'']))
     (BinarySerializer_process (VVector [VString ''a''])) = Ok (VVector [VString ''a''], [])"
  by code_simp

lemma vector_truncated_example:
  "BinaryDeserializer_process (TVector (TArith (Arith False 1)))
     (Some (VVector [VArith (Arith False 1) 9])) [3, 0, 0, 0, 0, 0, 0, 0, 5]
     = Ok (VVector [VArith (Arith False 1) 5, VArith (Arith False 1) 0, VArith (Arith False 1) 0], [])"
  by code_simp

lemma vector_truncated_len:
  "read_arith size_t None [3, 0, 0, 0, 0, 0, 0, 0, 5] = Ok (3, [5])"
  by code_simp

lemma vector_xml_example:
  "XMLDeserializer_process_at (TVector TString) (VVector [VString ''zz'', VString ''y''])
     (Some (XMLSerializer_process_at (VVector [VString ''a'']) (NewElement ''field''), []))
     = Ok (VVector [VString ''a''])"
  by code_simp

text \<open>The hypotheses of the theorem above hold for a vector of one string, read
  into a destination that held two, and for a file that ends after the first of the three
  elements its count announces.\<close>

theorem container_count_prefix_witness:
  "is_container (VVector [VString ''a''])
   \<and> take 8 (BinarySerializer_process (VVector [VString ''a'']))
       = arith_bytes size_t (int (count (VVector [VString ''a''])))
   \<and> container_ty (TVector TString)
   \<and> BinaryDeserializer_process (TVector TString) (Some (VVector [VString ''zz'', VString ''y'']))
        (BinarySerializer_process (VVector [VString ''a''])) = Ok (VVector [VString ''a''], [])
   \<and> (\<exists>len rest0. read_arith size_t None (BinarySerializer_process (VVector [VString ''a'']))
                      = Ok (len, rest0)
         \<and> int (count (VVector [VString ''a''])) = len)
   \<and> container_ty (TVector (TArith (Arith False 1)))
   \<and> BinaryDeserializer_process (TVector (TArith (Arith False 1)))
        (Some (VVector [VArith (Arith False 1) 9])) [3, 0, 0, 0, 0, 0, 0, 0, 5]
       = Ok (VVector [VArith (Arith False 1) 5, VArith (Arith False 1) 0, VArith (Arith False 1) 0], [])
   \<and> (\<exists>len rest0. read_arith size_t None [3, 0, 0, 0, 0, 0, 0, 0, 5] = Ok (len, rest0)
         \<and> int (count (VVector [VArith (Arith False 1) 5, VArith (Arith False 1) 0,
                                 VArith (Arith False 1) 0])) = len)
   \<and> XMLDeserializer_process_at (TVector TString) (VVector [VString ''zz'', VString ''y''])
        (Some (XMLSerializer_process_at (VVector [VString ''a'']) (NewElement ''field''), []))
       = Ok (VVector [VString ''a''])
   \<and> (\<exists>c cs. first_named ''vector''
                 (Children (XMLSerializer_process_at (VVector [VString ''a'']) (NewElement ''field'')))
               = Some (c, cs)
         \<and> count (VVector [VString ''a'']) = length (filter (\<lambda>x. Name x = ''item'') (Children c)))"
proof -
  let ?c = "VVector [VString ''a'']"
  let ?e = "XMLSerializer_process_at ?c (NewElement ''field'')"
  let ?u8 = "Arith False 1"
  let ?z = "VVector [VArith ?u8 5, VArith ?u8 0, VArith ?u8 0]"
  have 1: "is_container ?c" by simp
  have 2: "container_ty (TVector TString)" by simp
  have 3: "container_ty (TVector (TArith ?u8))" by simp
  have s: "sequence_ty (TVector TString)" by simp
  have s3: "sequence_ty (TVector (TArith ?u8))" by simp
  note w = container_count_prefix[where c="?c", THEN conjunct1, rule_format, OF 1]
  note b = container_count_prefix[where t="TVector TString"
      and data="Some (VVector [VString ''zz'', VString ''y''])"
      and inp="BinarySerializer_process ?c" and v="?c" and rest="[]",
      THEN conjunct2, THEN conjunct2, THEN conjunct1, rule_format, OF conjI[OF 2 vector_binary_example]]
  note z = container_count_prefix[where t="TVector (TArith ?u8)"
      and data="Some (VVector [VArith ?u8 9])"
      and inp="[3, 0, 0, 0, 0, 0, 0, 0, 5]" and v="?z" and rest="[]",
      THEN conjunct2, THEN conjunct2, THEN conjunct1, rule_format, OF conjI[OF 3 vector_truncated_example]]
  note x = container_count_prefix[where t="TVector TString" and old="VVector [VString ''zz'', VString ''y'']"
      and e="?e" and sibs="[]" and w="?c",
      THEN conjunct2, THEN conjunct2, THEN conjunct2, THEN conjunct1, rule_format,
      OF conjI[OF 2 vector_xml_example]]
  have b': "\<exists>len rest0. read_arith size_t None (BinarySerializer_process ?c) = Ok (len, rest0)
         \<and> int (count ?c) = len"
    using b s by blast
  have z': "\<exists>len rest0. read_arith size_t None [3, 0, 0, 0, 0, 0, 0, 0, 5] = Ok (len, rest0)
         \<and> int (count ?z) = len"
    using z s3 by blast
  have x': "\<exists>c cs. first_named ''vector'' (Children ?e) = Some (c, cs)
         \<and> count ?c = length (filter (\<lambda>x. Name x = ''item'') (Children c))"
  proof -
    have t: "container_tag (TVector TString) = ''vector''" by simp
    show ?thesis using x s unfolding t by blast
  qed
  show ?thesis
    using 1 w 2 vector_binary_example b' 3 vector_truncated_example z' vector_xml_example x'
    by (intro conjI)
qed

text \<open>
  Claim C7 as stated fails on two inputs: an XML vector whose \<^verbatim>\<open>length\<close> says 3 and
  that has one \<^verbatim>\<open><item>\<close> is read as a vector of one element, and a binary set whose
  count is 2 and whose two elements are equal is read as a set of one element.
\<close>

theorem container_count_prefix_counterexample:
  "process_arith size_t (Some (XMLElement ''length'' [(''val'', ''3'')] [], [])) = Ok 3
   \<and> XMLDeserializer_process_at (TVector (TArith (Arith True 4))) (VVector [])
        (Some (XMLElement ''field'' []
                 [XMLElement ''vector'' []
                    [XMLElement ''length'' [(''val'', ''3'')] [],
                     XMLElement ''item'' [(''val'', ''1'')] []]], []))
       = Ok (VVector [VArith (Arith True 4) 1])
   \<and> read_arith size_t None [2, 0, 0, 0, 0, 0, 0, 0, 5, 5] = Ok (2, [5, 5])
   \<and> BinaryDeserializer_process (TSet (TArith (Arith False 1))) (Some (VSet []))
        [2, 0, 0, 0, 0, 0, 0, 0, 5, 5]
       = Ok (VSet [VArith (Arith False 1) 5], [])"
  using vector_read_short_len vector_read_short set_read_dup_len set_read_dup by (intro conjI)

section \<open>Round trips\<close>

subsection \<open>Scalars and strings in the binary codec\<close>














subsection \<open>The binary codec on a stream\<close>







subsection \<open>The XML codec on a tree\<close>











subsection \<open>The top functions\<close>







subsection \<open>The round trip\<close>










end
